theory Spec2Isabelle
  imports Main "HOL-Library.Sublist"
begin

section \<open>JavaScript values used by the agent\<close>

text \<open>
  Strings are lists of 8-bit characters, one \<^typ>\<open>char\<close> per UTF-16 code unit below 256.
  A property that may be \<open>undefined\<close>, \<open>null\<close> or of another type than string is a
  \<^typ>\<open>string option\<close> whose \<^const>\<open>None\<close> stands for every non-string value.

  \<open>toLowerCase\<close> maps the capital letters of ASCII and of Latin-1 (192 to 222 without the
  multiplication sign 215). \<open>toUpperCase\<close> maps the small letters of ASCII and of Latin-1
  (224 to 254 without the division sign 247); the three characters 181, 223 and 255,
  whose capitals lie outside the 8-bit range, are left as they are.
\<close>

definition toLowerChar :: "char \<Rightarrow> char" where
  "toLowerChar c =
     (let n = (of_char c :: nat) in
      if (65 \<le> n \<and> n \<le> 90) \<or> (192 \<le> n \<and> n \<le> 222 \<and> n \<noteq> 215) then char_of (n + 32) else c)"

definition toUpperChar :: "char \<Rightarrow> char" where
  "toUpperChar c =
     (let n = (of_char c :: nat) in
      if (97 \<le> n \<and> n \<le> 122) \<or> (224 \<le> n \<and> n \<le> 254 \<and> n \<noteq> 247) then char_of (n - 32) else c)"

definition toLowerCase :: "string \<Rightarrow> string" where
  "toLowerCase s = map toLowerChar s"

definition toUpperCase :: "string \<Rightarrow> string" where
  "toUpperCase s = map toUpperChar s"

text \<open>\<open>s.includes(t)\<close>: \<open>t\<close> occurs in \<open>s\<close> as a contiguous substring.\<close>

fun includesStr :: "string \<Rightarrow> string \<Rightarrow> bool" where
  "includesStr [] t = (t = [])"
| "includesStr (c # cs) t = (prefix t (c # cs) \<or> includesStr cs t)"

text \<open>White space as \<open>trim\<close> and the regular expression class \<open>\s\<close> see it.\<close>

definition isSpace :: "char \<Rightarrow> bool" where
  "isSpace c = ((of_char c :: nat) \<in> {9, 10, 11, 12, 13, 32, 160})"

definition trim :: "string \<Rightarrow> string" where
  "trim s = rev (dropWhile isSpace (rev (dropWhile isSpace s)))"

text \<open>\<open>s.substring(0, n)\<close>, the only form of \<open>substring\<close> the program uses.\<close>

definition substring0 :: "nat \<Rightarrow> string \<Rightarrow> string" where
  "substring0 n s = take n s"

text \<open>\<open>a || d\<close> on a string property: the default replaces a missing or empty value.\<close>

definition orElse :: "string option \<Rightarrow> string \<Rightarrow> string" where
  "orElse a d = (case a of None \<Rightarrow> d | Some s \<Rightarrow> if s = [] then d else s)"

text \<open>
  \<open>Array.prototype.slice(start, end)\<close>: a negative index counts from the end, and both
  indices are clamped to the array.
\<close>

definition sliceIndex :: "int \<Rightarrow> nat \<Rightarrow> nat" where
  "sliceIndex i n = (if i < 0 then nat (max (int n + i) 0) else min (nat i) n)"

definition slice :: "int \<Rightarrow> int option \<Rightarrow> 'a list \<Rightarrow> 'a list" where
  "slice s e xs =
     (let n = length xs;
          k = sliceIndex s n;
          f = (case e of None \<Rightarrow> n | Some j \<Rightarrow> sliceIndex j n)
      in take (f - k) (drop k xs))"

text \<open>Decimal digits of a number, as string concatenation with a number prints it.\<close>

fun digitsFuel :: "nat \<Rightarrow> nat \<Rightarrow> string" where
  "digitsFuel 0 n = []"
| "digitsFuel (Suc k) n =
     (if n < 10 then [char_of (48 + n)] else digitsFuel k (n div 10) @ [char_of (48 + n mod 10)])"

definition showNat :: "nat \<Rightarrow> string" where
  "showNat n = digitsFuel (Suc n) n"

text \<open>
  A JSON value, and the text of a tool call's \<open>arguments\<close>: either the serialisation of
  a JSON value, which \<open>JSON.parse\<close> gives back, or a text that \<open>JSON.parse\<close> rejects
  with a \<open>SyntaxError\<close>.
\<close>

datatype json = JNull | JBool bool | JNum int | JStr string | JArr "json list" | JObj "(string \<times> json) list"

datatype arg_text = Stringified json | Malformed string

datatype js_error = SyntaxError | TypeError | Error string

definition JSON_parse :: "arg_text \<Rightarrow> js_error + json" where
  "JSON_parse a = (case a of Stringified j \<Rightarrow> Inr j | Malformed _ \<Rightarrow> Inl SyntaxError)"

section \<open>Data model\<close>

record tool_call =
  tc_id :: string
  tc_type :: string
  tc_name :: string
  tc_arguments :: arg_text

record message =
  role :: string
  content :: "string option"
  tool_calls :: "tool_call list option"
  tool_call_id :: "string option"

text \<open>What \<open>callLLM\<close> resolves to: \<open>{content, tool_calls}\<close>.\<close>

record llm_response =
  r_content :: "string option"
  r_tool_calls :: "tool_call list option"

section \<open>Agent: bounded conversation memory\<close>

definition maxConversationLength :: nat where
  "maxConversationLength = 50"

text \<open>
  \<open>cleanConversationMemory\<close>, with \<open>this.maxConversationLength\<close> as the parameter \<open>m\<close>:
  \<open>slice(0, 1)\<close> and \<open>slice(-m + 1)\<close> of the conversation, when it is longer than \<open>m\<close>.
\<close>

definition cleanConversationMemory :: "nat \<Rightarrow> 'a list \<Rightarrow> 'a list" where
  "cleanConversationMemory m conversation =
     (if length conversation > m then
        (let keepFirst = slice 0 (Some 1) conversation;
             keepRecent = slice (- int m + 1) None conversation
         in keepFirst @ keepRecent)
      else conversation)"

text \<open>
  The conversation cap of \<open>POST /api/llm\<close>: a \<open>messages\<close> array longer than 50 becomes
  \<open>[...messages.slice(0, 2), ...messages.slice(-48)]\<close>.
\<close>

definition limitConversation :: "'a list \<Rightarrow> 'a list" where
  "limitConversation messages =
     (if length messages > 50 then slice 0 (Some 2) messages @ slice (- 48) None messages
      else messages)"

section \<open>Agent: tool calls and the agent loop\<close>

text \<open>
  The three tools talk to the network; a run of one is the parameter \<open>run\<close>: the tool's
  name and parsed arguments give either the message of the error it throws or the
  \<open>JSON.stringify\<close> of its result.
\<close>

type_synonym tool_runner = "string \<Rightarrow> json \<Rightarrow> string + string"

text \<open>
  The mark that opens the message of a failed tool, a cross: the three bytes of its UTF-8
  encoding stand for the one character outside the 8-bit range.
\<close>

definition failureMark :: string where
  "failureMark = [CHR 0xE2, CHR 0x9D, CHR 0x8C]"

text \<open>
  \<open>handleToolCall\<close>: \<open>JSON.parse(args)\<close> runs before the \<open>try\<close> block, so its
  \<open>SyntaxError\<close> rejects the promise; every error inside the \<open>try\<close> block, the unknown
  tool included, becomes a tool entry.
\<close>

definition handleToolCall :: "tool_runner \<Rightarrow> tool_call \<Rightarrow> js_error + message" where
  "handleToolCall run toolCall =
     (let name = tc_name toolCall in
      case JSON_parse (tc_arguments toolCall) of
        Inl e \<Rightarrow> Inl e
      | Inr parsedArgs \<Rightarrow>
          (case (if name = ''google_search'' \<or> name = ''ai_pipe'' \<or> name = ''execute_javascript''
                 then run name parsedArgs
                 else Inl (''Unknown tool: '' @ name)) of
             Inr result \<Rightarrow>
               Inr \<lparr>role = ''tool'', content = Some result, tool_calls = None,
                    tool_call_id = Some (tc_id toolCall)\<rparr>
           | Inl msg \<Rightarrow>
               Inr \<lparr>role = ''tool'',
                    content = Some (failureMark @ '' '' @ name @ '' failed: '' @ msg),
                    tool_calls = None, tool_call_id = Some (tc_id toolCall)\<rparr>))"

text \<open>\<open>Promise.all\<close> over the batch: the results in call order, or the first rejection.\<close>

fun promiseAll :: "(js_error + 'a) list \<Rightarrow> js_error + 'a list" where
  "promiseAll [] = Inr []"
| "promiseAll (Inl e # ps) = Inl e"
| "promiseAll (Inr x # ps) = (case promiseAll ps of Inl e \<Rightarrow> Inl e | Inr xs \<Rightarrow> Inr (x # xs))"

text \<open>One answer of \<open>callLLM\<close>: it throws, or resolves to a response.\<close>

datatype llm_outcome = LLMThrows | LLMReturns llm_response

text \<open>
  \<open>agentLoop\<close>. The loop runs until a response without tool calls or an error; the
  answers of the provider are given as a list, one per iteration, and the result is
  \<^const>\<open>None\<close> when the list ends while the loop still asks.
\<close>

fun agentLoop :: "tool_runner \<Rightarrow> llm_outcome list \<Rightarrow> message list \<Rightarrow> message list option" where
  "agentLoop run [] conversation = None"
| "agentLoop run (LLMThrows # rs) conversation = Some conversation"
| "agentLoop run (LLMReturns response # rs) conversation =
     (case r_tool_calls response of
        Some (tc # tcs) \<Rightarrow>
          (case promiseAll (map (handleToolCall run) (tc # tcs)) of
             Inl e \<Rightarrow> Some conversation
           | Inr toolResults \<Rightarrow>
               agentLoop run rs
                 (conversation
                  @ [\<lparr>role = ''assistant'', content = r_content response,
                       tool_calls = r_tool_calls response, tool_call_id = None\<rparr>]
                  @ toolResults))
      | _ \<Rightarrow>
          Some (conversation
                @ [\<lparr>role = ''assistant'', content = r_content response,
                     tool_calls = None, tool_call_id = None\<rparr>]))"

text \<open>
  \<open>handleUserInput\<close> for an idle agent: blank input is ignored, otherwise the input,
  cut to 2000 characters, is pushed as a user entry and the agent loop runs.
\<close>

definition handleUserInput :: "tool_runner \<Rightarrow> string \<Rightarrow> llm_outcome list \<Rightarrow> message list \<Rightarrow> message list option" where
  "handleUserInput run text rs conversation =
     (let input = trim text in
      if input = [] then Some conversation
      else agentLoop run rs
             (conversation @ [\<lparr>role = ''user'', content = Some (substring0 2000 input),
                                tool_calls = None, tool_call_id = None\<rparr>]))"

text \<open>
  The life of a conversation: completed turns, and runs of the periodic sweep of
  \<open>startCleanupInterval\<close>, which is the only caller of \<open>cleanConversationMemory\<close>.
  A turn whose provider answers run out is not completed and leaves no state. Sweeps
  are taken between turns; a sweep in the middle of a turn trims the same array that the
  loop goes on appending to.
\<close>

datatype event = Turn string "llm_outcome list" | Sweep

fun step :: "tool_runner \<Rightarrow> event \<Rightarrow> message list \<Rightarrow> message list option" where
  "step run (Turn text rs) conversation = handleUserInput run text rs conversation"
| "step run Sweep conversation = Some (cleanConversationMemory maxConversationLength conversation)"

fun runEvents :: "tool_runner \<Rightarrow> event list \<Rightarrow> message list \<Rightarrow> message list option" where
  "runEvents run [] conversation = Some conversation"
| "runEvents run (e # es) conversation =
     (case step run e conversation of None \<Rightarrow> None | Some c \<Rightarrow> runEvents run es c)"

section \<open>Server: the search cache\<close>

record search_result =
  title :: string
  link :: string
  snippet :: string
  displayLink :: string

text \<open>
  A search response. \<open>isoTimestamp\<close> is the \<open>timestamp\<close> property, the text of
  \<open>new Date().toISOString()\<close>; a response without a \<open>cached\<close> property has
  \<open>cached = False\<close>. The \<open>searchTime\<close> of a Google response, a floating-point
  number, is left out.
\<close>

record search_response =
  query :: string
  results :: "search_result list"
  source :: string
  totalResults :: int
  isoTimestamp :: string
  cached :: bool
  noteText :: "string option"

text \<open>A cache value \<open>{data, timestamp}\<close>; the timestamp is a \<open>Date.now()\<close> in milliseconds.\<close>

record cache_entry =
  data :: search_response
  timestamp :: int

text \<open>
  A JavaScript \<open>Map\<close> from cache keys to cache values: the entries in insertion order,
  with distinct keys. \<open>set\<close> on a present key replaces the value in place, on a new key
  it appends.
\<close>

type_synonym cache = "(string \<times> cache_entry) list"

definition mapGet :: "cache \<Rightarrow> string \<Rightarrow> cache_entry option" where
  "mapGet m k = map_of m k"

definition mapDelete :: "string \<Rightarrow> cache \<Rightarrow> cache" where
  "mapDelete k m = filter (\<lambda>(k', v). k' \<noteq> k) m"

definition mapSet :: "string \<Rightarrow> cache_entry \<Rightarrow> cache \<Rightarrow> cache" where
  "mapSet k v m =
     (if k \<in> fst ` set m then map (\<lambda>(k', v'). if k' = k then (k', v) else (k', v')) m
      else m @ [(k, v)])"

definition MAX_CACHE_SIZE :: nat where "MAX_CACHE_SIZE = 100"
definition CACHE_TTL :: int where "CACHE_TTL = 5 * 60 * 1000"
definition MAX_RESULTS :: int where "MAX_RESULTS = 10"
definition MAX_QUERY_LENGTH :: nat where "MAX_QUERY_LENGTH = 200"

definition maxCacheEntries :: nat where "maxCacheEntries = 50"
definition cacheTTL :: int where "cacheTTL = 3 * 60 * 1000"

text \<open>
  The sweep that \<open>cleanCache\<close> of the server and \<open>cleanSearchCache\<close> of the agent share,
  with the time to live and the cap as parameters: first every entry with
  \<open>now - timestamp > ttl\<close> is deleted; then, if more than \<open>cap\<close> entries are left, the
  entries are sorted by timestamp (the sort of an array is stable) and the first
  \<open>length - cap\<close> of them are deleted by key.
\<close>

definition freshEntries :: "int \<Rightarrow> int \<Rightarrow> cache \<Rightarrow> cache" where
  "freshEntries ttl now m = filter (\<lambda>(key, value). \<not> (now - timestamp value > ttl)) m"

definition sweepCache :: "int \<Rightarrow> nat \<Rightarrow> int \<Rightarrow> cache \<Rightarrow> cache" where
  "sweepCache ttl cap now m =
     (let m1 = freshEntries ttl now m in
      if length m1 > cap then
        (let entries = sort_key (\<lambda>(key, value). timestamp value) m1;
             toRemove = slice 0 (Some (int (length entries) - int cap)) entries
         in fold (\<lambda>(key, value). mapDelete key) toRemove m1)
      else m1)"

definition cleanCache :: "int \<Rightarrow> cache \<Rightarrow> cache" where
  "cleanCache now m = sweepCache CACHE_TTL MAX_CACHE_SIZE now m"

definition cleanSearchCache :: "int \<Rightarrow> cache \<Rightarrow> cache" where
  "cleanSearchCache now m = sweepCache cacheTTL maxCacheEntries now m"

text \<open>
  The cache test of \<open>POST /api/search\<close>:
  \<open>cached && (Date.now() - cached.timestamp) < CACHE_TTL\<close> answers
  \<open>{...cached.data, cached: true}\<close>.
\<close>

definition cacheHit :: "int \<Rightarrow> cache \<Rightarrow> string \<Rightarrow> search_response option" where
  "cacheHit now m cacheKey =
     (case mapGet m cacheKey of
        None \<Rightarrow> None
      | Some c \<Rightarrow> if now - timestamp c < CACHE_TTL then Some ((data c)\<lparr>cached := True\<rparr>) else None)"

section \<open>Server: search\<close>

text \<open>\<open>encodeURIComponent\<close>: the UTF-8 bytes of every character outside the unreserved set, in hexadecimal.\<close>

definition hexDigit :: "nat \<Rightarrow> char" where
  "hexDigit n = ''0123456789ABCDEF'' ! (n mod 16)"

definition percentByte :: "nat \<Rightarrow> string" where
  "percentByte n = [CHR ''%'', hexDigit (n div 16), hexDigit (n mod 16)]"

definition uriUnreserved :: "char \<Rightarrow> bool" where
  "uriUnreserved c =
     (let n = (of_char c :: nat) in
      (48 \<le> n \<and> n \<le> 57) \<or> (65 \<le> n \<and> n \<le> 90) \<or> (97 \<le> n \<and> n \<le> 122) \<or> c \<in> set ''-_.!~*'()'')"

definition encodeURIComponent :: "string \<Rightarrow> string" where
  "encodeURIComponent s =
     concat (map (\<lambda>c. let n = (of_char c :: nat) in
                        if uriUnreserved c then [c]
                        else if n < 128 then percentByte n
                        else percentByte (192 + n div 64) @ percentByte (128 + n mod 64)) s)"

text \<open>\<open>s.replace(/\s+/g, '_')\<close>: every run of white space becomes one underscore.\<close>

function replaceSpaces :: "string \<Rightarrow> string" where
  "replaceSpaces [] = []"
| "replaceSpaces (c # cs) =
     (if isSpace c then CHR ''_'' # replaceSpaces (dropWhile isSpace cs) else c # replaceSpaces cs)"
  by pat_completeness auto
termination
  by (relation "measure length") (auto simp: less_Suc_eq_le length_dropWhile_le)

text \<open>
  What the network gives to one search request: the readings of the clock (in
  \<open>cleanCache\<close>, in the cache test, when the result is stored, and the text of
  \<open>toISOString\<close>), the reply of the Google API and of the Wikipedia API (\<^const>\<open>None\<close>
  when the request throws), and the host name that \<open>new URL\<close> finds in a link
  (\<^const>\<open>None\<close> when it throws).
\<close>

record google_item =
  g_title :: "string option"
  g_link :: "string option"
  g_snippet :: "string option"
  g_displayLink :: "string option"

record google_data =
  g_items :: "google_item list"
  g_totalResults :: "int option"

record wikipedia_data =
  w_title :: "string option"
  w_page :: "string option"
  w_extract :: "string option"
  w_type :: "string option"

record search_env =
  now_clean :: int
  now_check :: int
  now_store :: int
  now_iso :: string
  google_reply :: "google_data option"
  wikipedia_reply :: "wikipedia_data option"
  url_hostname :: "string \<Rightarrow> string option"

definition extractDomain :: "search_env \<Rightarrow> string \<Rightarrow> string" where
  "extractDomain env url = (case url_hostname env url of Some h \<Rightarrow> h | None \<Rightarrow> ''unknown'')"

definition performGoogleSearch ::
  "search_env \<Rightarrow> string \<Rightarrow> string \<Rightarrow> string \<Rightarrow> nat \<Rightarrow> js_error + search_response" where
  "performGoogleSearch env apiKey searchEngineId q numResults =
     (if \<not> prefix ''AIza'' apiKey \<or> length apiKey \<noteq> 39 then
        Inl (Error ''Invalid Google API key format'')
      else if searchEngineId = [] \<or> length searchEngineId < 10 then
        Inl (Error ''Invalid Search Engine ID format'')
      else
        (case google_reply env of
           None \<Rightarrow> Inl (Error ''Request failed'')
         | Some response \<Rightarrow>
             if g_items response = [] then Inl (Error ''No results returned from Google API'')
             else
               (let rs = map (\<lambda>item.
                          \<lparr>title = substring0 150 (orElse (g_title item) ''No title''),
                           link = orElse (g_link item) ''#'',
                           snippet = substring0 300 (orElse (g_snippet item) ''No description available''),
                           displayLink = orElse (g_displayLink item)
                             (extractDomain env (orElse (g_link item) ''https://example.com''))\<rparr>)
                          (g_items response)
                in Inr \<lparr>query = q,
                        results = slice 0 (Some (int numResults)) rs,
                        source = ''Google Custom Search API'',
                        totalResults =
                          min (case g_totalResults response of
                                 None \<Rightarrow> int (length rs)
                               | Some t \<Rightarrow> if t = 0 then int (length rs) else t) 1000000,
                        isoTimestamp = now_iso env,
                        cached = False,
                        noteText = None\<rparr>)))"

definition tryWikipediaSearch :: "search_env \<Rightarrow> string \<Rightarrow> search_result option" where
  "tryWikipediaSearch env q =
     (case wikipedia_reply env of
        None \<Rightarrow> None
      | Some d \<Rightarrow>
          if orElse (w_extract d) [] \<noteq> []
             \<and> \<not> (case w_type d of None \<Rightarrow> False | Some t \<Rightarrow> includesStr t ''disambiguation'')
          then Some \<lparr>title = orElse (w_title d) (q @ '' - Wikipedia''),
                     link = orElse (w_page d) (''https://en.wikipedia.org/wiki/'' @ encodeURIComponent q),
                     snippet = substring0 300 (orElse (w_extract d) []),
                     displayLink = ''en.wikipedia.org''\<rparr>
          else None)"

definition knowledgeBase :: "(string \<times> search_result list) list" where
  "knowledgeBase = [
    (''openai'',
     [
      \<lparr>title = ''OpenAI - Artificial Intelligence Research'',
        link = ''https://openai.com'',
        snippet = ''OpenAI is an AI research and deployment company dedicated to ensuring artificial general intelligence benefits all humanity.'',
        displayLink = ''openai.com''\<rparr>,
      \<lparr>title = ''OpenAI API Platform'',
        link = ''https://platform.openai.com'',
        snippet = (''Build with OpenAI's powerful AI models including GPT-4, DALL'' @ [CHR 0xB7] @ ''E, and Whisper through their developer platform.''),
        displayLink = ''platform.openai.com''\<rparr>,
      \<lparr>title = ''ChatGPT by OpenAI'',
        link = ''https://chat.openai.com'',
        snippet = ''ChatGPT is a conversational AI assistant that can help with writing, analysis, coding, math, and creative tasks.'',
        displayLink = ''chat.openai.com''\<rparr>]),
    (''ibm'',
     [
      \<lparr>title = ''IBM - Leading Enterprise AI and Cloud Solutions'',
        link = ''https://www.ibm.com'',
        snippet = ''IBM provides enterprise AI, cloud computing, and data solutions including Watson AI, Red Hat, and hybrid cloud technologies.'',
        displayLink = ''www.ibm.com''\<rparr>,
      \<lparr>title = ''IBM Watson AI Platform'',
        link = ''https://www.ibm.com/watson'',
        snippet = ''IBM Watson delivers AI solutions for business with machine learning, natural language processing, and automated insights.'',
        displayLink = ''www.ibm.com''\<rparr>,
      \<lparr>title = ''IBM Cloud - Hybrid Multi-Cloud Platform'',
        link = ''https://www.ibm.com/cloud'',
        snippet = ''Enterprise-grade cloud platform with AI services, Red Hat OpenShift, and industry-specific solutions for digital transformation.'',
        displayLink = ''www.ibm.com''\<rparr>]),
    (''google'',
     [
      \<lparr>title = ''Google - Search, AI, and Cloud Technologies'',
        link = ''https://www.google.com'',
        snippet = ''Google's mission is to organize the world's information and make it universally accessible through search, AI, and cloud services.'',
        displayLink = ''www.google.com''\<rparr>,
      \<lparr>title = ''Google Cloud Platform'',
        link = ''https://cloud.google.com'',
        snippet = ''Google Cloud provides scalable cloud computing services with AI/ML capabilities, data analytics, and enterprise infrastructure.'',
        displayLink = ''cloud.google.com''\<rparr>,
      \<lparr>title = ''Google AI and Research'',
        link = ''https://ai.google'',
        snippet = ''Google AI advances the state of artificial intelligence through research in machine learning, computer vision, and natural language processing.'',
        displayLink = ''ai.google''\<rparr>]),
    (''microsoft'',
     [
      \<lparr>title = ''Microsoft - Cloud, Productivity and AI Solutions'',
        link = ''https://www.microsoft.com'',
        snippet = ''Microsoft empowers organizations with cloud computing, productivity tools, AI services, and enterprise software solutions.'',
        displayLink = ''www.microsoft.com''\<rparr>,
      \<lparr>title = ''Microsoft Azure Cloud Platform'',
        link = ''https://azure.microsoft.com'',
        snippet = ''Azure provides comprehensive cloud services including AI, machine learning, databases, and enterprise applications.'',
        displayLink = ''azure.microsoft.com''\<rparr>,
      \<lparr>title = ''Microsoft 365 Productivity Suite'',
        link = ''https://www.microsoft.com/microsoft-365'',
        snippet = ''Microsoft 365 combines Office applications, cloud services, and AI-powered productivity tools for modern work.'',
        displayLink = ''www.microsoft.com''\<rparr>]),
    (''artificial intelligence'',
     [
      \<lparr>title = ''What is Artificial Intelligence? - Comprehensive Guide'',
        link = ''https://www.ibm.com/topics/artificial-intelligence'',
        snippet = ''Artificial intelligence enables computers and machines to mimic human problem-solving and decision-making capabilities through advanced algorithms.'',
        displayLink = ''www.ibm.com''\<rparr>,
      \<lparr>title = ''AI Research and News - MIT Technology Review'',
        link = ''https://www.technologyreview.com/topic/artificial-intelligence/'',
        snippet = ''Latest breakthroughs in AI research, machine learning applications, and the impact of artificial intelligence on society and industry.'',
        displayLink = ''www.technologyreview.com''\<rparr>,
      \<lparr>title = ''Stanford AI Research Institute'',
        link = ''https://hai.stanford.edu'',
        snippet = ''Stanford's Human-Centered AI Institute advances AI research, education, and policy to improve human welfare and society.'',
        displayLink = ''hai.stanford.edu''\<rparr>]),
    (''machine learning'',
     [
      \<lparr>title = ''Machine Learning Course - Stanford University'',
        link = ''https://www.coursera.org/learn/machine-learning'',
        snippet = ''Learn machine learning fundamentals from Andrew Ng covering algorithms, neural networks, and practical implementation techniques.'',
        displayLink = ''www.coursera.org''\<rparr>,
      \<lparr>title = ''Machine Learning Documentation - Google'',
        link = ''https://developers.google.com/machine-learning'',
        snippet = ''Google's comprehensive machine learning guides, tutorials, and tools including TensorFlow and cloud ML services.'',
        displayLink = ''developers.google.com''\<rparr>,
      \<lparr>title = ''Scikit-learn Machine Learning Library'',
        link = ''https://scikit-learn.org'',
        snippet = ''Open-source machine learning library for Python featuring classification, regression, clustering, and dimensionality reduction algorithms.'',
        displayLink = ''scikit-learn.org''\<rparr>]),
    (''python'',
     [
      \<lparr>title = ''Python.org - Official Python Programming Language'',
        link = ''https://www.python.org'',
        snippet = ''Python is a powerful, versatile programming language perfect for beginners and professionals in web development, data science, and AI.'',
        displayLink = ''www.python.org''\<rparr>,
      \<lparr>title = ''Python Tutorial - Official Documentation'',
        link = ''https://docs.python.org/3/tutorial/'',
        snippet = ''Official Python tutorial covering language basics, data structures, modules, classes, and standard library functionality.'',
        displayLink = ''docs.python.org''\<rparr>,
      \<lparr>title = ''Real Python - Python Programming Tutorials'',
        link = ''https://realpython.com'',
        snippet = ''In-depth Python tutorials, courses, and articles covering web development, data science, machine learning, and best practices.'',
        displayLink = ''realpython.com''\<rparr>]),
    (''javascript'',
     [
      \<lparr>title = ''JavaScript - MDN Web Docs'',
        link = ''https://developer.mozilla.org/en-US/docs/Web/JavaScript'',
        snippet = ''Comprehensive JavaScript documentation covering language fundamentals, APIs, and modern web development techniques.'',
        displayLink = ''developer.mozilla.org''\<rparr>,
      \<lparr>title = ''Node.js - JavaScript Runtime'',
        link = ''https://nodejs.org'',
        snippet = ''Node.js enables server-side JavaScript development with a rich ecosystem of packages for building scalable applications.'',
        displayLink = ''nodejs.org''\<rparr>,
      \<lparr>title = ''JavaScript.info - Modern JavaScript Tutorial'',
        link = ''https://javascript.info'',
        snippet = ''Modern JavaScript tutorial covering ES6+, async programming, DOM manipulation, and advanced programming concepts.'',
        displayLink = ''javascript.info''\<rparr>])]"

text \<open>\<open>generateContextualResults\<close>: the pushes in the order of the source, then \<open>slice(0, numResults)\<close>.\<close>

definition generateContextualResults :: "string \<Rightarrow> nat \<Rightarrow> search_result list" where
  "generateContextualResults q numResults =
     (let queryLower = toLowerCase q;
          r1 = [\<lparr>title = q @ '' - Wikipedia Encyclopedia'',
                 link = ''https://en.wikipedia.org/wiki/'' @ encodeURIComponent (replaceSpaces q),
                 snippet = ''Wikipedia article about '' @ q @ ''. Comprehensive encyclopedia entry with detailed information and reliable references.'',
                 displayLink = ''en.wikipedia.org''\<rparr>];
          r2 = (if includesStr queryLower ''code'' \<or> includesStr queryLower ''programming''
                   \<or> includesStr queryLower ''tutorial''
                then [\<lparr>title = q @ '' - Stack Overflow Programming Q&A'',
                       link = ''https://stackoverflow.com/search?q='' @ encodeURIComponent q,
                       snippet = ''Programming questions, solutions, and code examples related to '' @ q @ '' from the developer community.'',
                       displayLink = ''stackoverflow.com''\<rparr>,
                      \<lparr>title = q @ '' - GitHub Code Repositories'',
                       link = ''https://github.com/search?q='' @ encodeURIComponent q,
                       snippet = ''Open source code repositories and projects related to '' @ q @ ''. Browse implementations and contribute to projects.'',
                       displayLink = ''github.com''\<rparr>]
                else []);
          r3 = (if includesStr queryLower ''news'' \<or> includesStr queryLower ''latest''
                   \<or> includesStr queryLower ''recent''
                then [\<lparr>title = ''Latest News: '' @ q @ '' - Google News'',
                       link = ''https://news.google.com/search?q='' @ encodeURIComponent q,
                       snippet = ''Breaking news, recent developments, and current updates about '' @ q @ '' from trusted news sources worldwide.'',
                       displayLink = ''news.google.com''\<rparr>]
                else []);
          r4 = (if includesStr queryLower ''learn'' \<or> includesStr queryLower ''course''
                   \<or> includesStr queryLower ''tutorial''
                then [\<lparr>title = q @ '' - Online Courses and Learning'',
                       link = ''https://www.coursera.org/search?query='' @ encodeURIComponent q,
                       snippet = ''Online courses, tutorials, and educational content about '' @ q @ '' from top universities and institutions.'',
                       displayLink = ''www.coursera.org''\<rparr>]
                else []);
          r5 = (if includesStr queryLower ''video'' \<or> includesStr queryLower ''how to''
                then [\<lparr>title = q @ '' - YouTube Videos and Tutorials'',
                       link = ''https://www.youtube.com/results?search_query='' @ encodeURIComponent q,
                       snippet = ''Educational videos, tutorials, and demonstrations about '' @ q @ '' from content creators and experts.'',
                       displayLink = ''www.youtube.com''\<rparr>]
                else []);
          r6 = [\<lparr>title = q @ '' - Google Scholar Academic Papers'',
                 link = ''https://scholar.google.com/scholar?q='' @ encodeURIComponent q,
                 snippet = ''Scholarly articles, research papers, and academic studies about '' @ q @ '' from universities and research institutions.'',
                 displayLink = ''scholar.google.com''\<rparr>,
                \<lparr>title = q @ '' - Google Search Results'',
                 link = ''https://www.google.com/search?q='' @ encodeURIComponent q,
                 snippet = ''Comprehensive search results for '' @ q @ '' including websites, news, images, and related information.'',
                 displayLink = ''www.google.com''\<rparr>]
      in slice 0 (Some (int numResults)) (r1 @ r2 @ r3 @ r4 @ r5 @ r6))"

text \<open>
  \<open>getKnowledgeBaseResults\<close>: the first topic, in the order of the object literal, that
  the lower-cased query contains or that contains it; otherwise the contextual results.
\<close>

definition getKnowledgeBaseResults :: "search_env \<Rightarrow> string \<Rightarrow> nat \<Rightarrow> search_response" where
  "getKnowledgeBaseResults env q numResults =
     (let queryLower = toLowerCase q in
      case find (\<lambda>(topic, rs). includesStr queryLower topic \<or> includesStr topic queryLower)
                knowledgeBase of
        Some (topic, rs) \<Rightarrow>
          \<lparr>query = q,
           results = slice 0 (Some (int numResults)) rs,
           source = ''Enhanced Knowledge Base'',
           totalResults = int (length rs),
           isoTimestamp = now_iso env,
           cached = False,
           noteText = None\<rparr>
      | None \<Rightarrow>
          (let contextualResults = generateContextualResults q numResults in
           \<lparr>query = q,
            results = contextualResults,
            source = ''Contextual Search Results'',
            totalResults = int (length contextualResults),
            isoTimestamp = now_iso env,
            cached = False,
            noteText = None\<rparr>))"

definition performFallbackSearch :: "search_env \<Rightarrow> string \<Rightarrow> nat \<Rightarrow> search_response" where
  "performFallbackSearch env q numResults =
     (case tryWikipediaSearch env q of
        Some wikipediaResult \<Rightarrow>
          (let fallbackResults = getKnowledgeBaseResults env q numResults in
           fallbackResults
             \<lparr>results := slice 0 (Some (int numResults)) (wikipediaResult # results fallbackResults),
              source := ''Wikipedia + Knowledge Base''\<rparr>)
      | None \<Rightarrow> getKnowledgeBaseResults env q numResults)"

text \<open>
  The body of \<open>POST /api/search\<close>. \<open>q_query\<close> is \<^const>\<open>None\<close> for a query that is
  missing or not a string; \<open>q_num_results\<close> is what \<open>parseInt\<close> reads, \<^const>\<open>None\<close>
  for \<open>NaN\<close> and for a missing property, which both give 5.
\<close>

record search_request =
  q_query :: "string option"
  q_num_results :: "int option"
  q_googleSearchKey :: "string option"
  q_searchEngineId :: "string option"

text \<open>
  What a handler does with a request: it sends a response, a status with a body that is
  \<open>{error: message}\<close> or the endpoint's own, or its promise is rejected by an error
  thrown outside every \<open>try\<close> or inside a \<open>catch\<close>. A rejected handler has sent nothing;
  the request stays unanswered, or an error middleware answers it with status 500.
\<close>

datatype 'a body = ErrorBody string | Body 'a

datatype 'a http_response = Response nat "'a body" | HandlerRejected

definition clampNumResults :: "int option \<Rightarrow> nat" where
  "clampNumResults n =
     nat (min (max (case n of None \<Rightarrow> 5 | Some k \<Rightarrow> if k = 0 then 5 else k) 1) MAX_RESULTS)"

text \<open>
  \<open>POST /api/search\<close>: the response and the cache it leaves. No statement of the
  \<open>try\<close> block throws on these inputs, so the emergency fallback of its \<open>catch\<close> is
  not reached.
\<close>

definition api_search ::
  "search_env \<Rightarrow> search_request \<Rightarrow> cache \<Rightarrow> search_response http_response \<times> cache" where
  "api_search env req searchCache =
     (if orElse (q_query req) [] = [] then
        (Response 400 (ErrorBody ''Valid query is required''), searchCache)
      else
        (let q = substring0 MAX_QUERY_LENGTH (trim (orElse (q_query req) []));
             num_results = clampNumResults (q_num_results req);
             cacheKey = toLowerCase q @ ''_'' @ showNat num_results;
             cache1 = cleanCache (now_clean env) searchCache;
             googleSearchKey = orElse (q_googleSearchKey req) [];
             searchEngineId = orElse (q_searchEngineId req) [];
             fallback =
               (let fallbackResults = performFallbackSearch env q num_results in
                (Response 200 (Body fallbackResults),
                 mapSet cacheKey \<lparr>data = fallbackResults, timestamp = now_store env\<rparr> cache1))
         in case cacheHit (now_check env) cache1 cacheKey of
              Some c \<Rightarrow> (Response 200 (Body c), cache1)
            | None \<Rightarrow>
                if googleSearchKey \<noteq> [] \<and> searchEngineId \<noteq> [] \<and> length googleSearchKey > 20 then
                  (case performGoogleSearch env googleSearchKey searchEngineId q num_results of
                     Inr googleResults \<Rightarrow>
                       (Response 200 (Body googleResults),
                        mapSet cacheKey \<lparr>data = googleResults, timestamp = now_store env\<rparr> cache1)
                   | Inl googleError \<Rightarrow> fallback)
                else fallback))"

text \<open>The cache key that \<open>POST /api/search\<close> computes for a request.\<close>

definition searchKey :: "search_request \<Rightarrow> string" where
  "searchKey req =
     toLowerCase (substring0 MAX_QUERY_LENGTH (trim (orElse (q_query req) [])))
       @ ''_'' @ showNat (clampNumResults (q_num_results req))"

section \<open>Mock responders\<close>

text \<open>
  The regular expression \<open>/lit(.+)/i\<close> of the search-term patterns, for a lower-case
  literal: the leftmost place where the literal stands, case ignored, before a character
  that is no line terminator; the group is the rest of that line.
\<close>

definition isLineTerminator :: "char \<Rightarrow> bool" where
  "isLineTerminator c = ((of_char c :: nat) \<in> {10, 13})"

fun matchAfter :: "string \<Rightarrow> string \<Rightarrow> string option" where
  "matchAfter lit [] = None"
| "matchAfter lit (c # cs) =
     (let rest = drop (length lit) (c # cs) in
      if toLowerCase (take (length lit) (c # cs)) = lit \<and> rest \<noteq> [] \<and> \<not> isLineTerminator (hd rest)
      then Some (takeWhile (\<lambda>x. \<not> isLineTerminator x) rest)
      else matchAfter lit cs)"

text \<open>The first pattern of the list, in order, that matches the input, with its group.\<close>

fun firstMatch :: "string list \<Rightarrow> string \<Rightarrow> string option" where
  "firstMatch [] input = None"
| "firstMatch (p # ps) input =
     (case matchAfter p input of Some g \<Rightarrow> Some g | None \<Rightarrow> firstMatch ps input)"

text \<open>\<open>s.split(c)\<close> on a one-character separator, and \<open>words.join(sep)\<close>.\<close>

fun splitOn :: "char \<Rightarrow> string \<Rightarrow> string list" where
  "splitOn c [] = [[]]"
| "splitOn c (x # xs) =
     (if x = c then [] # splitOn c xs
      else (case splitOn c xs of [] \<Rightarrow> [[x]] | w # ws \<Rightarrow> (x # w) # ws))"

fun joinWith :: "string \<Rightarrow> string list \<Rightarrow> string" where
  "joinWith sep [] = []"
| "joinWith sep [w] = w"
| "joinWith sep (w # ws) = w @ sep @ joinWith sep ws"

text \<open>\<open>extractSearchTermFromInput\<close> of the server.\<close>

definition extractSearchTermFromInput :: "string \<Rightarrow> string" where
  "extractSearchTermFromInput input =
     (case firstMatch [''search for '', ''find '', ''look up '', ''google '', ''about ''] input of
        Some g \<Rightarrow> substring0 100 (trim g)
      | None \<Rightarrow>
          (let words = filter (\<lambda>word. length word > 3
                                \<and> toLowerCase word \<notin> set [''search'', ''find'', ''look'', ''google'', ''about''])
                         (splitOn CHR '' '' input)
           in orElse (Some (joinWith '' '' (slice 0 (Some 3) words))) ''information''))"

text \<open>
  The body of an answer of \<open>POST /api/llm\<close>: the uniform shape \<open>{content, tool_calls}\<close>,
  or the shape \<open>{choices: [{message}]}\<close> of the mock responder.
\<close>

datatype llm_body = Flat llm_response | Choices "message list"

definition demoToolCall :: "nat \<Rightarrow> string \<Rightarrow> json \<Rightarrow> tool_call" where
  "demoToolCall now name args =
     \<lparr>tc_id = ''call_demo_'' @ showNat now, tc_type = ''function'', tc_name = name,
      tc_arguments = Stringified args\<rparr>"

definition serverDemoCode :: string where
  "serverDemoCode = ''console.log('AgentFlow Demo - Code Execution'); const data = demoFunctions.generateRandomData(5); console.log('Random data:', data); const sum = data.reduce((a, b) => a + b, 0); console.log('Sum:', sum); return { data, sum, average: sum / data.length };''"

text \<open>
  \<open>getMockResponse\<close> of the server, with the reading of \<open>Date.now()\<close> as a parameter.
  \<open>lastMessage.content.toLowerCase()\<close> throws a \<open>TypeError\<close> when the content of the
  last message is no string.
\<close>

definition getMockResponse ::
  "nat \<Rightarrow> string option \<Rightarrow> string option \<Rightarrow> message list option \<Rightarrow> js_error + llm_body" where
  "getMockResponse now provider model messages =
     (let lastMessage = (case messages of None \<Rightarrow> None | Some ms \<Rightarrow> if ms = [] then None else Some (last ms)) in
      case (case lastMessage of
              None \<Rightarrow> Inr []
            | Some m \<Rightarrow> (case content m of
                           None \<Rightarrow> Inl TypeError
                         | Some c \<Rightarrow> Inr (substring0 500 (toLowerCase c)))) of
        Inl e \<Rightarrow> Inl e
      | Inr userInput \<Rightarrow>
          (let content0 = ''Hello! I'm a '' @ orElse (map_option toUpperCase provider) ''DEMO'' @ '' ''
                            @ orElse model ''model'' @ '' response in demo mode. ''
           in
           if includesStr userInput ''search'' \<or> includesStr userInput ''find'' \<or> includesStr userInput ''google'' then
             (let searchTerm = orElse (Some (extractSearchTermFromInput userInput)) ''information'' in
              Inr (Choices [\<lparr>role = ''assistant'',
                     content = Some (content0 @ ''I'll search for \"'' @ searchTerm @ ''\" using the available search tools.''),
                     tool_calls = Some [demoToolCall now ''google_search''
                        (JObj [(''query'', JStr searchTerm), (''num_results'', JNum 5)])],
                     tool_call_id = None\<rparr>]))
           else if includesStr userInput ''code'' \<or> includesStr userInput ''javascript'' \<or> includesStr userInput ''python'' then
             Inr (Choices [\<lparr>role = ''assistant'',
                    content = Some (content0 @ ''I'll execute some code to help with that.''),
                    tool_calls = Some [demoToolCall now ''execute_javascript'' (JObj [(''code'', JStr serverDemoCode)])],
                    tool_call_id = None\<rparr>])
           else if includesStr userInput ''analyze'' \<or> includesStr userInput ''summarize'' \<or> includesStr userInput ''workflow'' then
             Inr (Choices [\<lparr>role = ''assistant'',
                    content = Some (content0 @ ''I'll process that using an AI workflow.''),
                    tool_calls = Some [demoToolCall now ''ai_pipe''
                       (JObj [(''workflow'', JStr ''summarize''), (''data'', JStr (substring0 500 userInput))])],
                    tool_call_id = None\<rparr>])
           else
             Inr (Choices [\<lparr>role = ''assistant'',
                    content = Some (substring0 2000 (content0 @ ''I can help with web searches, code execution, and AI workflows. Add your API keys for full functionality!'')),
                    tool_calls = None, tool_call_id = None\<rparr>])))"









section \<open>Server: the LLM endpoint\<close>

text \<open>
  A request body of \<open>POST /api/llm\<close>. A property is \<^const>\<open>None\<close> when it is missing
  or \<open>null\<close>; \<open>tools\<close> and the search credentials only travel to the vendor and are
  left out. The provider, the model and the key are strings when present: a key of
  another type, on which \<open>apiKey.trim()\<close> throws, is not a value of this record.
\<close>

record llm_request =
  l_provider :: "string option"
  l_model :: "string option"
  l_messages :: "message list option"
  l_apiKey :: "string option"

text \<open>
  What the outside gives to one request: the reading of \<open>Date.now()\<close>, and the answer
  of the vendor's HTTP API as the provider binding returns it, \<^const>\<open>None\<close> when the
  request, its status or its payload makes the binding throw.
\<close>

record llm_env =
  llm_now :: nat
  live_reply :: "llm_response option"

definition vendorCall :: "llm_env \<Rightarrow> js_error + llm_response" where
  "vendorCall env = (case live_reply env of None \<Rightarrow> Inl (Error ''Request failed'') | Some r \<Rightarrow> Inr r)"

text \<open>
  The four provider bindings: each checks the shape of the key, then calls the vendor.
  The content of what they return is a string of at most 8000 characters, and Gemini
  returns no tool calls.
\<close>

definition capContent :: "string option \<Rightarrow> string option" where
  "capContent c = Some (case c of None \<Rightarrow> [] | Some s \<Rightarrow> substring0 8000 s)"

definition callOpenAI :: "llm_env \<Rightarrow> string \<Rightarrow> js_error + llm_response" where
  "callOpenAI env apiKey =
     (if \<not> prefix ''sk-'' apiKey \<or> length apiKey < 40 then Inl (Error ''Invalid OpenAI API key format'')
      else (case vendorCall env of
              Inl e \<Rightarrow> Inl e
            | Inr r \<Rightarrow> Inr \<lparr>r_content = capContent (r_content r), r_tool_calls = r_tool_calls r\<rparr>))"

definition callAnthropic :: "llm_env \<Rightarrow> string \<Rightarrow> js_error + llm_response" where
  "callAnthropic env apiKey =
     (if \<not> prefix ''sk-ant-'' apiKey \<or> length apiKey < 40 then Inl (Error ''Invalid Anthropic API key format'')
      else (case vendorCall env of
              Inl e \<Rightarrow> Inl e
            | Inr r \<Rightarrow> Inr \<lparr>r_content = capContent (r_content r), r_tool_calls = r_tool_calls r\<rparr>))"

definition callGemini :: "llm_env \<Rightarrow> string \<Rightarrow> js_error + llm_response" where
  "callGemini env apiKey =
     (if length apiKey < 30 then Inl (Error ''Invalid Google Gemini API key'')
      else (case vendorCall env of
              Inl e \<Rightarrow> Inl e
            | Inr r \<Rightarrow> Inr \<lparr>r_content = capContent (r_content r), r_tool_calls = None\<rparr>))"

definition callAIPipe :: "llm_env \<Rightarrow> string \<Rightarrow> js_error + llm_response" where
  "callAIPipe env apiKey =
     (if length apiKey < 10 then Inl (Error ''Invalid AI Pipe token'')
      else (case vendorCall env of
              Inl e \<Rightarrow> Inl e
            | Inr r \<Rightarrow> Inr \<lparr>r_content = capContent (r_content r), r_tool_calls = r_tool_calls r\<rparr>))"

text \<open>The test for demo mode: no key, a blank key, or one of the two sentinel texts.\<close>

definition demoKey :: "string option \<Rightarrow> bool" where
  "demoKey apiKey =
     (case apiKey of
        None \<Rightarrow> True
      | Some k \<Rightarrow> k = [] \<or> trim k = [] \<or> k = ''undefined'' \<or> k = ''null'')"

text \<open>
  \<open>POST /api/llm\<close>. The \<open>try\<close> block gives a response or the error it throws; the outer
  \<open>catch\<close> answers an error with status 500 and the mock response for the request as
  received, and when that call of \<open>getMockResponse\<close> throws as well, the handler's
  promise is rejected and no response is sent.
\<close>

definition truncateMessage :: "message \<Rightarrow> message" where
  "truncateMessage msg = msg\<lparr>content := map_option (substring0 8000) (content msg)\<rparr>"

definition api_llm_try :: "llm_env \<Rightarrow> llm_request \<Rightarrow> js_error + llm_body http_response" where
  "api_llm_try env req =
     (if orElse (l_provider req) [] = [] \<or> orElse (l_model req) [] = [] \<or> l_messages req = None then
        Inr (Response 400 (ErrorBody ''Missing required parameters''))
      else
        (let provider = orElse (l_provider req) [];
             messages = map truncateMessage (limitConversation (the (l_messages req)));
             mock = (case getMockResponse (llm_now env) (l_provider req) (l_model req) (Some messages) of
                       Inl e \<Rightarrow> Inl e
                     | Inr b \<Rightarrow> Inr (Response 200 (Body b)));
             answer = (\<lambda>call. case call of
                                 Inr response \<Rightarrow> Inr (Response 200 (Body (Flat response)))
                               | Inl apiError \<Rightarrow> mock)
         in
         if demoKey (l_apiKey req) then mock
         else if provider = ''openai'' then answer (callOpenAI env (the (l_apiKey req)))
         else if provider = ''anthropic'' then answer (callAnthropic env (the (l_apiKey req)))
         else if provider = ''google'' then answer (callGemini env (the (l_apiKey req)))
         else if provider = ''aipipe'' then answer (callAIPipe env (the (l_apiKey req)))
         else Inr (Response 400 (ErrorBody ''Unsupported provider''))))"

definition api_llm :: "llm_env \<Rightarrow> llm_request \<Rightarrow> llm_body http_response" where
  "api_llm env req =
     (case api_llm_try env req of
        Inr response \<Rightarrow> response
      | Inl error \<Rightarrow>
          (case getMockResponse (llm_now env) (l_provider req) (l_model req) (l_messages req) of
             Inr b \<Rightarrow> Response 500 (Body b)
           | Inl e \<Rightarrow> HandlerRejected))"

text \<open>
  The part of a body that claim C1 speaks of: a content that is not null, or a tool call,
  in the uniform shape or in the first message of the choices.
\<close>

definition carriesAnswer :: "llm_body \<Rightarrow> bool" where
  "carriesAnswer b =
     (case b of
        Flat r \<Rightarrow> r_content r \<noteq> None \<or> (case r_tool_calls r of None \<Rightarrow> False | Some tcs \<Rightarrow> tcs \<noteq> [])
      | Choices ms \<Rightarrow>
          (case ms of
             [] \<Rightarrow> False
           | m # _ \<Rightarrow> content m \<noteq> None \<or> (case tool_calls m of None \<Rightarrow> False | Some tcs \<Rightarrow> tcs \<noteq> [])))"

section \<open>Server: the code execution endpoint\<close>

text \<open>
  The virtual machine is the parameter \<open>vm\<close>: for a code text, what \<open>vm.run\<close> does. It returns a
  value, or it throws; the thrown value carries a \<open>message\<close> text (an \<open>Error\<close>, the
  timeout included) or none (a thrown string, number or \<open>null\<close>). With it come the lines
  that the code wrote with \<open>console.log\<close> and \<open>console.error\<close>. A returned value that
  \<open>res.json\<close> cannot serialise throws inside the \<open>try\<close> block like an \<open>Error\<close> of
  the code.
\<close>

datatype vm_outcome = VmReturns json | VmThrows "string option"

record vm_run =
  outcome :: vm_outcome
  vm_logs :: "string list"
  vm_errors :: "string list"

record execute_body =
  success :: bool
  result :: "json option"
  logs :: "string list"
  errors :: "string list"
  error :: "string option"
  x_timestamp :: string

text \<open>
  \<open>POST /api/execute\<close>; \<open>code\<close> is \<^const>\<open>None\<close> when the property is missing or no
  string. In the \<open>catch\<close> block \<open>error.message.substring\<close> throws when the thrown value
  has no message, which rejects the handler's promise.
\<close>

definition api_execute :: "(string \<Rightarrow> vm_run) \<Rightarrow> string \<Rightarrow> string option \<Rightarrow> execute_body http_response" where
  "api_execute vm isoNow code =
     (if orElse code [] = [] then Response 400 (ErrorBody ''Code is required'')
      else
        (let code1 = (if length (the code) > 10000 then substring0 10000 (the code) else the code);
             run = vm code1
         in case outcome run of
              VmReturns v \<Rightarrow>
                Response 200 (Body \<lparr>success = True, result = Some v, logs = slice 0 (Some 50) (vm_logs run),
                                     errors = vm_errors run, error = None, x_timestamp = isoNow\<rparr>)
            | VmThrows (Some msg) \<Rightarrow>
                Response 200 (Body \<lparr>success = False, result = None, logs = [], errors = [msg],
                                     error = Some (substring0 1000 msg), x_timestamp = isoNow\<rparr>)
            | VmThrows None \<Rightarrow> HandlerRejected))"

definition is2xx :: "'a http_response \<Rightarrow> bool" where
  "is2xx r = (case r of Response s b \<Rightarrow> 200 \<le> s \<and> s < 300 | HandlerRejected \<Rightarrow> False)"

section \<open>Example values\<close>

text \<open>Concrete caches, environments and requests, on which the theorems below are instantiated.\<close>

definition exampleData :: search_response where
  "exampleData = \<lparr>query = ''q'', results = [], source = ''Contextual Search Results'', totalResults = 0,
         isoTimestamp = ''2025-01-01T00:00:00.000Z'', cached = False, noteText = None\<rparr>"

definition exampleCache :: cache where
  "exampleCache = map (\<lambda>i. (showNat i, \<lparr>data = exampleData, timestamp = int i\<rparr>)) [0 ..< 102]"

definition offlineEnv :: "int \<Rightarrow> search_env" where
  "offlineEnv t = \<lparr>now_clean = t, now_check = t, now_store = t, now_iso = ''2025-01-01T00:00:00.000Z'',
      google_reply = None, wikipedia_reply = None, url_hostname = (\<lambda>u. None)\<rparr>"

definition searchRequest :: "string \<Rightarrow> int option \<Rightarrow> search_request" where
  "searchRequest q n = \<lparr>q_query = Some q, q_num_results = n, q_googleSearchKey = None, q_searchEngineId = None\<rparr>"

definition ibmBody :: search_response where
  "ibmBody = getKnowledgeBaseResults (offlineEnv 1000) ''ibm'' 3"

definition exampleVm :: "string \<Rightarrow> vm_run" where
  "exampleVm code =
     (if code = ''while (true) {}''
      then \<lparr>outcome = VmThrows (Some ''Script execution timed out.''), vm_logs = [], vm_errors = []\<rparr>
      else \<lparr>outcome = VmReturns (JNum 2), vm_logs = [], vm_errors = []\<rparr>)"



section \<open>Properties of the conversation memory\<close>

lemma slice_first: "slice 0 (Some 1) xs = take 1 xs"
  by (cases xs) (simp_all add: slice_def sliceIndex_def Let_def)

lemma slice_first2: "slice 0 (Some 2) xs = take 2 xs"
  by (simp add: slice_def sliceIndex_def Let_def min_def)

lemma slice_neg: "i < 0 \<Longrightarrow> slice i None xs = drop (length xs - nat (- i)) xs"
proof -
  assume k: "i < 0"
  have "nat (max (int (length xs) + i) 0) = length xs - nat (- i)"
    using k by (simp add: max_def) linarith
  then show ?thesis using k
    by (simp add: slice_def sliceIndex_def Let_def)
qed

lemma clean_long:
  "length conv > 50 \<Longrightarrow> cleanConversationMemory 50 conv = hd conv # drop (length conv - 49) conv"
  by (cases conv) (simp_all add: cleanConversationMemory_def slice_first slice_neg Let_def)

lemma limit_long:
  "length ms > 50 \<Longrightarrow> limitConversation ms = take 2 ms @ drop (length ms - 48) ms"
  by (simp add: limitConversation_def slice_first2 slice_neg)

lemma clean_length: "length (cleanConversationMemory 50 conv) \<le> 50"
  by (cases "length conv > 50") (simp_all add: clean_long, simp add: cleanConversationMemory_def)

lemma clean_hd: "conv \<noteq> [] \<Longrightarrow> hd (cleanConversationMemory 50 conv) = hd conv"
  by (cases "length conv > 50") (simp_all add: clean_long, simp add: cleanConversationMemory_def)

lemma clean_nonempty: "conv \<noteq> [] \<Longrightarrow> cleanConversationMemory 50 conv \<noteq> []"
  by (cases "length conv > 50") (simp_all add: clean_long, simp add: cleanConversationMemory_def)

lemma agentLoop_appends:
  "agentLoop run rs conv = Some conv' \<Longrightarrow> \<exists>ys. conv' = conv @ ys"
proof (induction run rs conv rule: agentLoop.induct)
  case (1 run conversation)
  then show ?case by simp
next
  case (2 run rs conversation)
  then show ?case by simp
next
  case (3 run response rs conversation)
  show ?case
  proof (cases "r_tool_calls response")
    case None
    with 3(2) show ?thesis by auto
  next
    case (Some tcs)
    show ?thesis
    proof (cases tcs)
      case Nil
      with Some 3(2) show ?thesis by auto
    next
      case (Cons tc tcs')
      show ?thesis
      proof (cases "promiseAll (map (handleToolCall run) (tc # tcs'))")
        case (Inl e)
        with Some Cons 3(2) show ?thesis by auto
      next
        case (Inr toolResults)
        with Some Cons 3(2) have
          "agentLoop run rs (conversation @ [\<lparr>role = ''assistant'', content = r_content response,
                       tool_calls = r_tool_calls response, tool_call_id = None\<rparr>] @ toolResults) = Some conv'"
          by simp
        from 3(1)[OF Some Cons Inr this] obtain ys where
          "conv' = (conversation @ [\<lparr>role = ''assistant'', content = r_content response,
                       tool_calls = r_tool_calls response, tool_call_id = None\<rparr>] @ toolResults) @ ys"
          by blast
        then show ?thesis by simp
      qed
    qed
  qed
qed

lemma handleUserInput_appends:
  "handleUserInput run text rs conv = Some conv' \<Longrightarrow> \<exists>ys. conv' = conv @ ys"
  by (auto simp: handleUserInput_def Let_def split: if_splits dest!: agentLoop_appends)

lemma step_hd:
  "step run e conv = Some conv' \<Longrightarrow> conv \<noteq> [] \<Longrightarrow> conv' \<noteq> [] \<and> hd conv' = hd conv"
  by (cases e) (auto simp: clean_hd clean_nonempty maxConversationLength_def dest!: handleUserInput_appends)

lemma runEvents_hd:
  "runEvents run es conv = Some conv' \<Longrightarrow> conv \<noteq> [] \<Longrightarrow> conv' \<noteq> [] \<and> hd conv' = hd conv"
proof (induction es arbitrary: conv)
  case Nil
  then show ?case by simp
next
  case (Cons e es)
  then obtain c where c: "step run e conv = Some c" and r: "runEvents run es c = Some conv'"
    by (auto split: option.splits)
  from step_hd[OF c Cons.prems(2)] Cons.IH[OF r] show ?case by simp
qed

lemma runEvents_append:
  "runEvents run (es @ fs) conv =
     (case runEvents run es conv of None \<Rightarrow> None | Some c \<Rightarrow> runEvents run fs c)"
  by (induction es arbitrary: conv) (auto split: option.splits)

text \<open>
  Claim C3, as stated, at the conversation cap of \<open>POST /api/llm\<close>: of 51 messages,
  numbered 0 to 50, the endpoint does not keep the first one and the most recent 49.
  It keeps the messages 0 and 1 and drops message 2.
\<close>

theorem C3_server_keeps_two_counterexample:
  "limitConversation [0 ..< 51]
     \<noteq> hd [0 ..< 51] # drop (length [0 ..< 51] - (maxConversationLength - 1)) [0 ..< 51]"
  by code_simp

text \<open>
  Claim C3, amended: a conversation longer than \<open>maxConversationLength\<close> is cut by
  \<open>cleanConversationMemory\<close> of the agent to exactly its first entry followed by its
  most recent \<open>maxConversationLength - 1\<close> entries, and a \<open>messages\<close> list of that
  length is cut by \<open>POST /api/llm\<close> to exactly its first two entries followed by its
  most recent 48.
\<close>

theorem C3_trimming:
  assumes "length conv > maxConversationLength"
  shows "cleanConversationMemory maxConversationLength conv
           = hd conv # drop (length conv - (maxConversationLength - 1)) conv
         \<and> limitConversation conv = take 2 conv @ drop (length conv - 48) conv"
  using assms clean_long[of conv] limit_long[of conv] by (simp add: maxConversationLength_def)

theorem C3_trimming_witness:
  "length [0 ..< 53] > maxConversationLength
   \<and> cleanConversationMemory maxConversationLength [0 ..< 53] = 0 # [4 ..< 53]
   \<and> limitConversation [0 ..< 53] = [0, 1] @ [5 ..< 53]"
proof -
  have h: "length [0 ..< 53] > maxConversationLength"
    by (simp add: maxConversationLength_def)
  have d1: "drop (length [0 ..< 53] - (maxConversationLength - 1)) [0 ..< 53] = [4 ..< 53]"
    by (simp add: maxConversationLength_def drop_upt)
  have d2: "drop (length [0 ..< 53] - 48) [0 ..< 53] = [5 ..< 53]"
    by (simp add: drop_upt)
  have hd: "hd [0 ..< 53] = (0::nat)"
    by (simp add: upt_conv_Cons)
  have tk: "take 2 [0 ..< 53] = [0, Suc 0]"
    by (simp add: take_upt upt_conv_Cons)
  from C3_trimming [OF h] h show ?thesis
    unfolding d1 d2 hd tk by simp
qed

text \<open>
  Claim C4, as stated: 26 completed turns of one question and one answer each, with no
  sweep in between, leave a conversation of 52 entries, more than
  \<open>maxConversationLength\<close>. The agent loop appends and never trims.
\<close>

theorem C4_turns_exceed_cap_counterexample:
  "\<not> (case runEvents (\<lambda>name args. Inl ''offline'')
              (replicate 26 (Turn ''hello'' [LLMReturns \<lparr>r_content = Some ''ok'', r_tool_calls = None\<rparr>])) [] of
         None \<Rightarrow> True
       | Some c \<Rightarrow> length c \<le> maxConversationLength)"
  by code_simp

text \<open>
  Claim C4, amended: after any number of completed turns and sweeps, a conversation that
  started non-empty still starts with its original entry 0, and when the last event is a
  sweep it holds at most \<open>maxConversationLength\<close> entries.
\<close>

theorem C4_anchor_and_sweep_bound:
  "(runEvents run es conv = Some conv' \<longrightarrow> conv \<noteq> [] \<longrightarrow> conv' \<noteq> [] \<and> hd conv' = hd conv)
   \<and> (runEvents run (es @ [Sweep]) conv = Some conv' \<longrightarrow> length conv' \<le> maxConversationLength)"
proof (intro conjI impI)
  assume "runEvents run es conv = Some conv'" and "conv \<noteq> []"
  then show "conv' \<noteq> []" and "hd conv' = hd conv"
    using runEvents_hd by blast+
next
  assume "runEvents run (es @ [Sweep]) conv = Some conv'"
  then obtain c where "conv' = cleanConversationMemory maxConversationLength c"
    by (auto simp: runEvents_append split: option.splits)
  then show "length conv' \<le> maxConversationLength"
    using clean_length by (simp add: maxConversationLength_def)
qed

theorem C4_anchor_and_sweep_bound_witness:
  "runEvents (\<lambda>name args. Inl ''offline'')
     ([Turn ''hello'' [LLMReturns \<lparr>r_content = Some ''ok'', r_tool_calls = None\<rparr>]] @ [Sweep])
     [\<lparr>role = ''user'', content = Some ''first'', tool_calls = None, tool_call_id = None\<rparr>]
   = Some [\<lparr>role = ''user'', content = Some ''first'', tool_calls = None, tool_call_id = None\<rparr>,
           \<lparr>role = ''user'', content = Some ''hello'', tool_calls = None, tool_call_id = None\<rparr>,
           \<lparr>role = ''assistant'', content = Some ''ok'', tool_calls = None, tool_call_id = None\<rparr>]
   \<and> length [\<lparr>role = ''user'', content = Some ''first'', tool_calls = None, tool_call_id = None\<rparr>,
           \<lparr>role = ''user'', content = Some ''hello'', tool_calls = None, tool_call_id = None\<rparr>,
           \<lparr>role = ''assistant'', content = Some ''ok'', tool_calls = None, tool_call_id = None\<rparr>]
       \<le> maxConversationLength"
proof -
  have r: "runEvents (\<lambda>name args. Inl ''offline'')
     ([Turn ''hello'' [LLMReturns \<lparr>r_content = Some ''ok'', r_tool_calls = None\<rparr>]] @ [Sweep])
     [\<lparr>role = ''user'', content = Some ''first'', tool_calls = None, tool_call_id = None\<rparr>]
   = Some [\<lparr>role = ''user'', content = Some ''first'', tool_calls = None, tool_call_id = None\<rparr>,
           \<lparr>role = ''user'', content = Some ''hello'', tool_calls = None, tool_call_id = None\<rparr>,
           \<lparr>role = ''assistant'', content = Some ''ok'', tool_calls = None, tool_call_id = None\<rparr>]"
    by code_simp
  from C4_anchor_and_sweep_bound [of "\<lambda>name args. Inl ''offline''"
      "[Turn ''hello'' [LLMReturns \<lparr>r_content = Some ''ok'', r_tool_calls = None\<rparr>]]"
      "[\<lparr>role = ''user'', content = Some ''first'', tool_calls = None, tool_call_id = None\<rparr>]"] r
  show ?thesis by blast
qed

section \<open>Properties of the search cache\<close>

lemma fold_mapDelete:
  "fold (\<lambda>(key, value). mapDelete key) rs m = filter (\<lambda>(k, v). k \<notin> fst ` set rs) m"
proof (induction rs arbitrary: m)
  case Nil
  then show ?case by simp
next
  case (Cons r rs)
  obtain k v where r: "r = (k, v)" by (cases r)
  have "fold (\<lambda>(key, value). mapDelete key) (r # rs) m
          = filter (\<lambda>(k', v). k' \<notin> fst ` set rs) (mapDelete k m)"
    by (simp add: r Cons.IH)
  also have "\<dots> = filter (\<lambda>(k', v). k' \<notin> fst ` set (r # rs)) m"
    unfolding mapDelete_def filter_filter by (rule filter_cong) (auto simp: r)
  finally show ?case .
qed

lemma distinct_keys_mem:
  "distinct (map fst m) \<Longrightarrow> (k, v) \<in> set m \<Longrightarrow> (k, v') \<in> set m \<Longrightarrow> v = v'"
  by (meson eq_key_imp_eq_value)

lemma delete_keys_distinct:
  assumes d: "distinct (map fst m)" and sub: "set rs \<subseteq> set m"
  shows "filter (\<lambda>(k, v). k \<notin> fst ` set rs) m = filter (\<lambda>e. e \<notin> set rs) m"
proof (rule filter_cong[OF refl])
  fix e assume e: "e \<in> set m"
  obtain k v where kv: "e = (k, v)" by (cases e)
  have "k \<in> fst ` set rs \<longleftrightarrow> (k, v) \<in> set rs"
  proof
    assume "k \<in> fst ` set rs"
    then obtain v' where v': "(k, v') \<in> set rs" by force
    with sub have "(k, v') \<in> set m" by blast
    with d e kv have "v = v'" using distinct_keys_mem by metis
    with v' show "(k, v) \<in> set rs" by simp
  next
    assume "(k, v) \<in> set rs"
    then show "k \<in> fst ` set rs" by force
  qed
  then show "(case e of (k, v) \<Rightarrow> k \<notin> fst ` set rs) = (e \<notin> set rs)"
    by (simp add: kv)
qed

lemma length_filter_not_in:
  assumes "distinct m" and "distinct rs" and "set rs \<subseteq> set m"
  shows "length (filter (\<lambda>e. e \<notin> set rs) m) = length m - length rs"
proof -
  have "length (filter (\<lambda>e. e \<in> set rs) m) + length (filter (\<lambda>e. e \<notin> set rs) m) = length m"
    using sum_length_filter_compl[of "\<lambda>e. e \<in> set rs" m] by simp
  moreover have "length (filter (\<lambda>e. e \<in> set rs) m) = length rs"
  proof -
    have "distinct (filter (\<lambda>e. e \<in> set rs) m)" using assms(1) by simp
    moreover have "set (filter (\<lambda>e. e \<in> set rs) m) = set rs" using assms(3) by auto
    ultimately show ?thesis
      using assms(2) by (metis distinct_card)
  qed
  ultimately show ?thesis by simp
qed

lemma sweep_small:
  "length (freshEntries ttl now m) \<le> cap \<Longrightarrow> sweepCache ttl cap now m = freshEntries ttl now m"
  by (simp add: sweepCache_def freshEntries_def Let_def)

lemma sweep_large:
  assumes d: "distinct (map fst m)" and big: "length (freshEntries ttl now m) > cap"
  shows "sweepCache ttl cap now m =
           filter (\<lambda>e. e \<notin> set (take (length (freshEntries ttl now m) - cap)
                                   (sort_key (\<lambda>(key, value). timestamp value) (freshEntries ttl now m))))
                  (freshEntries ttl now m)"
proof -
  let ?m1 = "freshEntries ttl now m"
  let ?es = "sort_key (\<lambda>(key, value). timestamp value) ?m1"
  let ?n = "length ?m1 - cap"
  have sl: "slice 0 (Some (int (length ?es) - int cap)) ?es = take ?n ?es"
    using big by (simp add: slice_def sliceIndex_def Let_def min_def nat_diff_distrib')
  have d1: "distinct (map fst ?m1)"
    using d by (simp add: freshEntries_def distinct_map_filter)
  have sub: "set (take ?n ?es) \<subseteq> set ?m1"
    using set_take_subset[of ?n ?es] by simp
  have "sweepCache ttl cap now m = fold (\<lambda>(key, value). mapDelete key) (take ?n ?es) ?m1"
    using big sl by (simp add: sweepCache_def freshEntries_def Let_def)
  also have "\<dots> = filter (\<lambda>(k, v). k \<notin> fst ` set (take ?n ?es)) ?m1"
    by (rule fold_mapDelete)
  also have "\<dots> = filter (\<lambda>e. e \<notin> set (take ?n ?es)) ?m1"
    by (rule delete_keys_distinct[OF d1 sub])
  finally show ?thesis .
qed

lemma sweep_subset_fresh: 
  assumes d: "distinct (map fst m)"
  shows "set (sweepCache ttl cap now m) \<subseteq> set (freshEntries ttl now m)"
proof (cases "length (freshEntries ttl now m) > cap")
  case True
  then show ?thesis by (auto simp: sweep_large[OF d True])
next
  case False
  then show ?thesis by (simp add: sweep_small)
qed

lemma sweep_length:
  assumes d: "distinct (map fst m)"
  shows "length (sweepCache ttl cap now m) = min cap (length (freshEntries ttl now m))"
proof (cases "length (freshEntries ttl now m) > cap")
  case True
  let ?m1 = "freshEntries ttl now m"
  let ?es = "sort_key (\<lambda>(key, value). timestamp value) ?m1"
  let ?n = "length ?m1 - cap"
  have d1: "distinct ?m1"
    using d by (simp add: freshEntries_def distinct_map)
  have "length (filter (\<lambda>e. e \<notin> set (take ?n ?es)) ?m1) = length ?m1 - length (take ?n ?es)"
    using d1 set_take_subset[of ?n ?es] by (intro length_filter_not_in) auto
  then show ?thesis using True by (simp add: sweep_large[OF d True])
next
  case False
  then show ?thesis by (simp add: sweep_small)
qed

lemma sweep_removes_oldest:
  assumes d: "distinct (map fst m)"
    and x: "x \<in> set (freshEntries ttl now m)" and xr: "x \<notin> set (sweepCache ttl cap now m)"
    and y: "y \<in> set (sweepCache ttl cap now m)"
  shows "timestamp (snd x) \<le> timestamp (snd y)"
proof (cases "length (freshEntries ttl now m) > cap")
  case False
  with x xr show ?thesis by (simp add: sweep_small)
next
  case True
  let ?m1 = "freshEntries ttl now m"
  let ?f = "\<lambda>(key, value). timestamp (value :: cache_entry)"
  let ?es = "sort_key ?f ?m1"
  let ?n = "length ?m1 - cap"
  have xin: "x \<in> set (take ?n ?es)"
    using x xr by (auto simp: sweep_large[OF d True])
  have "y \<in> set ?es" and "y \<notin> set (take ?n ?es)"
    using y by (auto simp: sweep_large[OF d True])
  then have yin: "y \<in> set (drop ?n ?es)"
    by (metis Un_iff append_take_drop_id set_append)
  have "sorted (map ?f (take ?n ?es @ drop ?n ?es))"
    by simp
  then have "\<forall>a \<in> set (take ?n ?es). \<forall>b \<in> set (drop ?n ?es). ?f a \<le> ?f b"
    unfolding map_append sorted_append by auto
  with xin yin have "?f x \<le> ?f y" by blast
  then show ?thesis by (simp add: case_prod_beta)
qed

lemma google_not_cached: "performGoogleSearch env k e q n = Inr g \<Longrightarrow> \<not> cached g"
  by (auto simp: performGoogleSearch_def Let_def split: if_splits option.splits)

lemma kb_not_cached: "\<not> cached (getKnowledgeBaseResults env q n)"
  by (simp add: getKnowledgeBaseResults_def Let_def split: option.splits prod.splits)

lemma fallback_not_cached: "\<not> cached (performFallbackSearch env q n)"
  by (simp add: performFallbackSearch_def Let_def kb_not_cached split: option.splits)

lemma cacheHit_cached: "cacheHit now m k = Some c \<Longrightarrow> cached c"
  by (auto simp: cacheHit_def split: option.splits if_splits)

lemma api_search_cases:
  assumes valid: "orElse (q_query req) [] \<noteq> []"
  shows "\<exists>b. \<not> cached b \<and>
           api_search env req m =
             (case cacheHit (now_check env) (cleanCache (now_clean env) m) (searchKey req) of
                Some c \<Rightarrow> (Response 200 (Body c), cleanCache (now_clean env) m)
              | None \<Rightarrow> (Response 200 (Body b),
                          mapSet (searchKey req) \<lparr>data = b, timestamp = now_store env\<rparr>
                            (cleanCache (now_clean env) m)))"
proof -
  let ?q = "substring0 MAX_QUERY_LENGTH (trim (orElse (q_query req) []))"
  let ?n = "clampNumResults (q_num_results req)"
  let ?k = "orElse (q_googleSearchKey req) []"
  let ?e = "orElse (q_searchEngineId req) []"
  show ?thesis
  proof (cases "?k \<noteq> [] \<and> ?e \<noteq> [] \<and> length ?k > 20")
    case True
    show ?thesis
    proof (cases "performGoogleSearch env ?k ?e ?q ?n")
      case (Inl err)
      with True valid show ?thesis
        by (intro exI[of _ "performFallbackSearch env ?q ?n"])
           (simp add: api_search_def searchKey_def Let_def fallback_not_cached split: option.splits)
    next
      case (Inr g)
      with True valid show ?thesis
        by (intro exI[of _ g])
           (simp add: api_search_def searchKey_def Let_def google_not_cached[OF Inr] split: option.splits)
    qed
  next
    case False
    with valid show ?thesis
      by (intro exI[of _ "performFallbackSearch env ?q ?n"])
         (auto simp add: api_search_def searchKey_def Let_def fallback_not_cached split: option.splits)
  qed
qed

lemma mapSet_new: "k \<notin> fst ` set m \<Longrightarrow> mapSet k v m = m @ [(k, v)]"
  by (simp add: mapSet_def)

lemma mapSet_keys: "k \<in> fst ` set m \<Longrightarrow> map fst (mapSet k v m) = map fst m"
  by (auto simp: mapSet_def)

lemma mapSet_distinct: "distinct (map fst m) \<Longrightarrow> distinct (map fst (mapSet k v m))"
  by (cases "k \<in> fst ` set m") (simp_all add: mapSet_keys mapSet_new)

lemma mapSet_mem: "(k, v) \<in> set (mapSet k v m)"
  by (cases "k \<in> fst ` set m") (force simp: mapSet_def)+

lemma mapSet_length_old: "k \<in> fst ` set m \<Longrightarrow> length (mapSet k v m) = length m"
  by (simp add: mapSet_def)

lemma mapGet_distinct: "distinct (map fst m) \<Longrightarrow> (k, v) \<in> set m \<Longrightarrow> mapGet m k = Some v"
  by (simp add: mapGet_def)

lemma mapGet_mem: "mapGet m k = Some v \<Longrightarrow> (k, v) \<in> set m"
  by (simp add: mapGet_def map_of_SomeD)

lemma sweep_is_filter: "\<exists>P. sweepCache ttl cap now m = filter P m"
proof (cases "length (freshEntries ttl now m) > cap")
  case True
  then have "sweepCache ttl cap now m
               = fold (\<lambda>(key, value). mapDelete key)
                   (slice 0 (Some (int (length (sort_key (\<lambda>(key, value). timestamp value) (freshEntries ttl now m))) - int cap))
                      (sort_key (\<lambda>(key, value). timestamp value) (freshEntries ttl now m)))
                   (freshEntries ttl now m)"
    by (simp add: sweepCache_def Let_def)
  then show ?thesis
    unfolding fold_mapDelete freshEntries_def filter_filter by blast
next
  case False
  then show ?thesis by (auto simp: sweep_small freshEntries_def)
qed

lemma sweep_distinct:
  assumes "distinct (map fst m)"
  shows "distinct (map fst (sweepCache ttl cap now m))"
proof -
  from sweep_is_filter obtain P where "sweepCache ttl cap now m = filter P m" by blast
  with assms show ?thesis by (simp add: distinct_map_filter)
qed

lemma sweep_subset: "set (sweepCache ttl cap now m) \<subseteq> set m"
proof -
  from sweep_is_filter obtain P where "sweepCache ttl cap now m = filter P m" by blast
  then show ?thesis by auto
qed

lemma insort_before_last:
  "f a \<le> f x \<Longrightarrow> \<exists>zs'. insort_key f a (zs @ [x]) = zs' @ [x] \<and> set zs' = insert a (set zs)"
proof (induction zs)
  case Nil
  then show ?case by auto
next
  case (Cons z zs)
  then obtain zs' where zs': "insort_key f a (zs @ [x]) = zs' @ [x]" "set zs' = insert a (set zs)"
    by blast
  show ?case
  proof (cases "f a \<le> f z")
    case True
    then have "insort_key f a ((z # zs) @ [x]) = (a # z # zs) @ [x]" by simp
    then show ?thesis by (metis list.simps(15))
  next
    case False
    then have "insort_key f a ((z # zs) @ [x]) = (z # zs') @ [x]" using zs' by simp
    moreover have "set (z # zs') = insert a (set (z # zs))" using zs' by auto
    ultimately show ?thesis by blast
  qed
qed

lemma sort_key_newest_last:
  "\<forall>e \<in> set xs. f e \<le> f x \<Longrightarrow> \<exists>zs. sort_key f (xs @ [x]) = zs @ [x] \<and> set zs = set xs"
proof (induction xs)
  case Nil
  then show ?case by (simp add: sort_key_def)
next
  case (Cons a xs)
  then obtain zs where zs: "sort_key f (xs @ [x]) = zs @ [x]" "set zs = set xs"
    by auto
  from Cons.prems have "f a \<le> f x" by simp
  from insort_before_last[of f a x zs, OF this] obtain zs' where
    "insort_key f a (zs @ [x]) = zs' @ [x]" "set zs' = insert a (set zs)" by blast
  with zs show ?case by (auto simp: sort_key_def)
qed

lemma filter_all_of_length: "length (filter P xs) = length xs \<Longrightarrow> filter P xs = xs"
  by (metis filter_True length_filter_less less_irrefl)

text \<open>The entry stored last survives the next sweep while it is not expired.\<close>

lemma sweep_keeps_stored:
  assumes d: "distinct (map fst c)" and len: "length c \<le> cap" and cap: "0 < cap"
    and past: "\<forall>(k', v') \<in> set c. timestamp v' \<le> timestamp v"
    and age: "now - timestamp v \<le> ttl"
  shows "(k, v) \<in> set (sweepCache ttl cap now (mapSet k v c))"
proof -
  let ?m = "mapSet k v c"
  have dm: "distinct (map fst ?m)" using d by (rule mapSet_distinct)
  have inm: "(k, v) \<in> set ?m" by (rule mapSet_mem)
  have infresh: "(k, v) \<in> set (freshEntries ttl now ?m)"
    using inm age by (simp add: freshEntries_def)
  show ?thesis
  proof (cases "length (freshEntries ttl now ?m) > cap")
    case False
    with infresh show ?thesis by (simp add: sweep_small)
  next
    case True
    have le: "length (freshEntries ttl now ?m) \<le> length ?m" by (simp add: freshEntries_def)
    have new: "k \<notin> fst ` set c"
    proof
      assume "k \<in> fst ` set c"
      then have "length ?m = length c" by (rule mapSet_length_old)
      with True le len show False by simp
    qed
    then have m: "?m = c @ [(k, v)]" by (rule mapSet_new)
    then have lc: "length ?m = Suc (length c)" by simp
    with True le len have full: "length (freshEntries ttl now ?m) = length ?m" and lencap: "length c = cap"
      by simp_all
    from full have fr: "freshEntries ttl now ?m = ?m"
      unfolding freshEntries_def by (rule filter_all_of_length)
    let ?f = "\<lambda>(key, value). timestamp (value :: cache_entry)"
    have "\<forall>e \<in> set c. ?f e \<le> ?f (k, v)" using past by auto
    from sort_key_newest_last[OF this] obtain zs where
      zs: "sort_key ?f (c @ [(k, v)]) = zs @ [(k, v)]" "set zs = set c" by blast
    from lencap cap zs(2) have "zs \<noteq> []" by auto
    then obtain z zs' where z: "zs = z # zs'" by (cases zs) auto
    have fr': "freshEntries ttl now (c @ [(k, v)]) = c @ [(k, v)]"
      using fr m by simp
    have rem: "take (length (freshEntries ttl now ?m) - cap) (sort_key ?f (freshEntries ttl now ?m)) = [z]"
      unfolding m fr' zs z using lencap by simp
    have "z \<in> set c" using zs(2) z by auto
    with new have "z \<noteq> (k, v)" by force
    then show ?thesis
      unfolding sweep_large[OF dm True] rem using inm by (simp add: fr)
  qed
qed

lemma cleanCache_length:
  "distinct (map fst m) \<Longrightarrow> length (cleanCache now m) \<le> MAX_CACHE_SIZE"
  by (simp add: cleanCache_def sweep_length)

lemma cleanCache_past:
  assumes "distinct (map fst m)" and "\<forall>(k, c) \<in> set m. timestamp c \<le> t"
  shows "\<forall>(k, c) \<in> set (cleanCache now m). timestamp c \<le> t"
  using assms sweep_subset unfolding cleanCache_def by blast

lemma cacheHit_fresh:
  "cacheHit now m key = Some r \<Longrightarrow>
     \<exists>c. mapGet m key = Some c \<and> now - timestamp c < CACHE_TTL \<and> r = (data c)\<lparr>cached := True\<rparr>"
  by (auto simp: cacheHit_def split: option.splits if_splits)

text \<open>
  Claim C6: after a run of the cache sweep on a cache with distinct keys, at most
  \<open>MAX_CACHE_SIZE\<close> entries are left, none of them older than \<open>CACHE_TTL\<close>, and nothing
  was added; an unexpired entry is removed only when the cap was exceeded, the cache is
  then left exactly at the cap, and every entry kept is at least as recent as the one
  removed. The cache test serves an entry only when its age is below \<open>CACHE_TTL\<close>.
\<close>

theorem C6_cache_sweep:
  assumes "distinct (map fst m)"
  shows "length (cleanCache now m) \<le> MAX_CACHE_SIZE
       \<and> (\<forall>(k, v) \<in> set (cleanCache now m). now - timestamp v \<le> CACHE_TTL)
       \<and> set (cleanCache now m) \<subseteq> set m
       \<and> (\<forall>x \<in> set m. now - timestamp (snd x) \<le> CACHE_TTL \<longrightarrow> x \<notin> set (cleanCache now m) \<longrightarrow>
            length (cleanCache now m) = MAX_CACHE_SIZE
            \<and> (\<forall>y \<in> set (cleanCache now m). timestamp (snd x) \<le> timestamp (snd y)))
       \<and> (\<forall>now' key r. cacheHit now' (cleanCache now m) key = Some r \<longrightarrow>
            (\<exists>c. mapGet (cleanCache now m) key = Some c \<and> now' - timestamp c < CACHE_TTL
                 \<and> r = (data c)\<lparr>cached := True\<rparr>))"
proof (intro conjI ballI impI allI)
  show "length (cleanCache now m) \<le> MAX_CACHE_SIZE"
    using assms by (rule cleanCache_length)
next
  show "set (cleanCache now m) \<subseteq> set m"
    unfolding cleanCache_def by (rule sweep_subset)
next
  fix e assume "e \<in> set (cleanCache now m)"
  then have "e \<in> set (freshEntries CACHE_TTL now m)"
    using sweep_subset_fresh[OF assms] unfolding cleanCache_def by blast
  then show "case e of (k, v) \<Rightarrow> now - timestamp v \<le> CACHE_TTL"
    by (auto simp: freshEntries_def)
next
  fix x assume x: "x \<in> set m" "now - timestamp (snd x) \<le> CACHE_TTL" "x \<notin> set (cleanCache now m)"
  then have xf: "x \<in> set (freshEntries CACHE_TTL now m)"
    by (auto simp: freshEntries_def)
  have "length (freshEntries CACHE_TTL now m) > MAX_CACHE_SIZE"
  proof (rule ccontr)
    assume "\<not> ?thesis"
    then have "cleanCache now m = freshEntries CACHE_TTL now m"
      by (simp add: cleanCache_def sweep_small)
    with xf x(3) show False by simp
  qed
  then show "length (cleanCache now m) = MAX_CACHE_SIZE"
    by (simp add: cleanCache_def sweep_length[OF assms])
  fix y assume "y \<in> set (cleanCache now m)"
  with xf x(3) show "timestamp (snd x) \<le> timestamp (snd y)"
    unfolding cleanCache_def by (intro sweep_removes_oldest[OF assms])
next
  fix now' key r assume "cacheHit now' (cleanCache now m) key = Some r"
  then show "\<exists>c. mapGet (cleanCache now m) key = Some c \<and> now' - timestamp c < CACHE_TTL
                 \<and> r = (data c)\<lparr>cached := True\<rparr>"
    by (rule cacheHit_fresh)
qed

lemma exampleCache_distinct: "distinct (map fst exampleCache)"
  unfolding exampleCache_def by code_simp

lemma exampleCache_swept:
  "map fst (cleanCache 300001 exampleCache) = map showNat [2 ..< 102]"
  unfolding exampleCache_def by code_simp

lemma exampleCache_second:
  "(''1'', \<lparr>data = exampleData, timestamp = 1\<rparr>) \<in> set exampleCache"
  unfolding exampleCache_def by code_simp

lemma exampleCache_second_removed:
  "(''1'', \<lparr>data = exampleData, timestamp = 1\<rparr>) \<notin> set (cleanCache 300001 exampleCache)"
proof
  assume "(''1'', \<lparr>data = exampleData, timestamp = 1\<rparr>) \<in> set (cleanCache 300001 exampleCache)"
  then have "''1'' \<in> set (map fst (cleanCache 300001 exampleCache))"
    by force
  then have "''1'' \<in> set (map showNat [2 ..< 102])"
    by (simp only: exampleCache_swept)
  then show False by code_simp
qed

theorem C6_cache_sweep_witness:
  "distinct (map fst exampleCache)
   \<and> (''1'', \<lparr>data = exampleData, timestamp = 1\<rparr>) \<in> set exampleCache
   \<and> (''1'', \<lparr>data = exampleData, timestamp = 1\<rparr>) \<notin> set (cleanCache 300001 exampleCache)
   \<and> length (cleanCache 300001 exampleCache) = MAX_CACHE_SIZE
   \<and> set (cleanCache 300001 exampleCache) \<subseteq> set exampleCache"
proof -
  have age: "300001 - timestamp (snd (''1'', \<lparr>data = exampleData, timestamp = 1\<rparr>)) \<le> CACHE_TTL"
    by (simp add: CACHE_TTL_def)
  from C6_cache_sweep [OF exampleCache_distinct, of 300001]
    exampleCache_distinct exampleCache_second exampleCache_second_removed age
  show ?thesis by blast
qed

text \<open>The sweep of the agent, \<open>cleanSearchCache\<close>, is the same with the agent's constants.\<close>

lemma cleanSearchCache_bounds:
  assumes "distinct (map fst m)"
  shows "length (cleanSearchCache now m) \<le> maxCacheEntries"
    and "\<forall>(k, v) \<in> set (cleanSearchCache now m). now - timestamp v \<le> cacheTTL"
    and "set (cleanSearchCache now m) \<subseteq> set m"
proof -
  show "length (cleanSearchCache now m) \<le> maxCacheEntries"
    using assms by (simp add: cleanSearchCache_def sweep_length)
  show "\<forall>(k, v) \<in> set (cleanSearchCache now m). now - timestamp v \<le> cacheTTL"
    using sweep_subset_fresh[OF assms, of cacheTTL maxCacheEntries now]
    by (auto simp: cleanSearchCache_def freshEntries_def)
  show "set (cleanSearchCache now m) \<subseteq> set m"
    unfolding cleanSearchCache_def by (rule sweep_subset)
qed

lemma api_search_fresh_when_late:
  assumes valid: "orElse (q_query req) [] \<noteq> []"
    and dist: "distinct (map fst m)"
    and get: "mapGet m (searchKey req) = Some c"
    and late: "CACHE_TTL \<le> now_check env - timestamp c"
  shows "\<exists>b. fst (api_search env req m) = Response 200 (Body b) \<and> \<not> cached b"
proof -
  let ?key = "searchKey req"
  let ?c1 = "cleanCache (now_clean env) m"
  have "cacheHit (now_check env) ?c1 ?key = None"
  proof (cases "mapGet ?c1 ?key")
    case None
    then show ?thesis by (simp add: cacheHit_def)
  next
    case (Some v')
    then have "(?key, v') \<in> set ?c1" by (rule mapGet_mem)
    then have "(?key, v') \<in> set m"
      using sweep_subset unfolding cleanCache_def by blast
    then have "mapGet m ?key = Some v'" using dist by (intro mapGet_distinct)
    with get have "v' = c" by simp
    with Some late show ?thesis by (simp add: cacheHit_def)
  qed
  with api_search_cases[OF valid, of env m] show ?thesis by auto
qed

text \<open>An entry of a cache within the cap survives the sweep while it is not expired.\<close>

lemma sweep_keeps_within_cap:
  assumes "(k, v) \<in> set m" and "length m \<le> cap" and "now - timestamp v \<le> ttl"
  shows "(k, v) \<in> set (sweepCache ttl cap now m)"
proof -
  have "length (freshEntries ttl now m) \<le> length m" by (simp add: freshEntries_def)
  with assms(2) have "sweepCache ttl cap now m = freshEntries ttl now m"
    by (intro sweep_small) simp
  with assms(1,3) show ?thesis by (simp add: freshEntries_def)
qed

text \<open>
  Claim C7, as stated: the search for \<open>ibm\<close> with three results, stored at time 0, is
  issued at 299999 and again 2 milliseconds later. The first of the two calls is answered
  from the cache; at the second the entry is older than \<open>CACHE_TTL\<close>, the sweep deletes
  it, and the answer is fresh, without \<open>cached: true\<close>.
\<close>

theorem C7_second_call_fresh_counterexample:
  "300001 - (299999::int) < CACHE_TTL
   \<and> (case fst (api_search (offlineEnv 299999) (searchRequest ''ibm'' (Some 3))
                   [(''ibm_3'', \<lparr>data = ibmBody, timestamp = 0\<rparr>)]) of
         Response s (Body b) \<Rightarrow> s = 200 \<and> cached b
       | _ \<Rightarrow> False)
   \<and> (case fst (api_search (offlineEnv 300001) (searchRequest ''ibm'' (Some 3))
                   (snd (api_search (offlineEnv 299999) (searchRequest ''ibm'' (Some 3))
                           [(''ibm_3'', \<lparr>data = ibmBody, timestamp = 0\<rparr>)]))) of
         Response s (Body b) \<Rightarrow> s = 200 \<and> \<not> cached b
       | _ \<Rightarrow> False)"
  unfolding ibmBody_def by code_simp

text \<open>
  Claim C7, amended: a search that \<open>POST /api/search\<close> has answered, fresh or from the
  cache, has an entry in the cache, with the results of that answer. When the same search
  is the next request and less than \<open>CACHE_TTL\<close> has passed since the timestamp stored
  with the entry, the response is the first one with \<open>cached: true\<close>, whatever the
  network would answer now, and a third call when \<open>CACHE_TTL\<close> or more has passed since
  that timestamp is answered fresh, without \<open>cached: true\<close>; so is the second call
  already, when it comes that late. The entries of the cache carry timestamps of the past.
\<close>

theorem C7_cache_idempotence:
  assumes valid: "orElse (q_query req) [] \<noteq> []"
    and dist: "distinct (map fst m0)"
    and past: "\<forall>(k, c) \<in> set m0. timestamp c \<le> now_store e1"
    and first: "api_search e1 req m0 = (Response 200 (Body b1), m1)"
    and mono: "now_clean e2 \<le> now_check e2"
  shows "\<exists>c. mapGet m1 (searchKey req) = Some c
           \<and> results (data c) = results b1
           \<and> (now_check e2 - timestamp c < CACHE_TTL \<longrightarrow>
                fst (api_search e2 req m1) = Response 200 (Body (b1\<lparr>cached := True\<rparr>))
                \<and> (CACHE_TTL \<le> now_check e3 - timestamp c \<longrightarrow>
                     (\<exists>b3. fst (api_search e3 req (snd (api_search e2 req m1))) = Response 200 (Body b3)
                           \<and> \<not> cached b3)))
           \<and> (CACHE_TTL \<le> now_check e2 - timestamp c \<longrightarrow>
                (\<exists>b2. fst (api_search e2 req m1) = Response 200 (Body b2) \<and> \<not> cached b2))"
proof -
  let ?key = "searchKey req"
  let ?c1 = "cleanCache (now_clean e1) m0"
  let ?c2 = "cleanCache (now_clean e2) m1"
  have d1: "distinct (map fst ?c1)"
    using dist by (simp add: cleanCache_def sweep_distinct)
  from api_search_cases[OF valid, of e1 m0] obtain b where
    b: "api_search e1 req m0 =
          (case cacheHit (now_check e1) ?c1 ?key of
             Some c \<Rightarrow> (Response 200 (Body c), ?c1)
           | None \<Rightarrow> (Response 200 (Body b), mapSet ?key \<lparr>data = b, timestamp = now_store e1\<rparr> ?c1))"
    by blast
  have stored: "\<exists>c. distinct (map fst m1) \<and> (?key, c) \<in> set m1
                  \<and> (data c)\<lparr>cached := True\<rparr> = b1\<lparr>cached := True\<rparr>
                  \<and> (now_clean e2 - timestamp c \<le> CACHE_TTL \<longrightarrow> (?key, c) \<in> set ?c2)"
  proof (cases "cacheHit (now_check e1) ?c1 ?key")
    case None
    let ?v = "\<lparr>data = b1, timestamp = now_store e1\<rparr>"
    from None b first have m1: "m1 = mapSet ?key ?v ?c1" by simp
    have "distinct (map fst m1)"
      unfolding m1 using d1 by (rule mapSet_distinct)
    moreover have "(?key, ?v) \<in> set m1"
      unfolding m1 by (rule mapSet_mem)
    moreover have "(?key, ?v) \<in> set ?c2" if "now_clean e2 - timestamp ?v \<le> CACHE_TTL"
      unfolding m1 cleanCache_def
      using d1 cleanCache_length[OF dist, of "now_clean e1"] _ cleanCache_past[OF dist past] that
      by (intro sweep_keeps_stored) (simp_all add: cleanCache_def MAX_CACHE_SIZE_def)
    ultimately show ?thesis by (intro exI[of _ ?v]) simp
  next
    case (Some h)
    with b first have b1: "b1 = h" and m1: "m1 = ?c1" by simp_all
    from cacheHit_fresh[OF Some] obtain c where
      c: "mapGet ?c1 ?key = Some c" "h = (data c)\<lparr>cached := True\<rparr>" by blast
    have mem: "(?key, c) \<in> set m1"
      unfolding m1 using c(1) by (rule mapGet_mem)
    have "(?key, c) \<in> set ?c2" if "now_clean e2 - timestamp c \<le> CACHE_TTL"
      unfolding cleanCache_def
      using mem cleanCache_length[OF dist, of "now_clean e1"] that
      by (intro sweep_keeps_within_cap) (simp_all add: m1)
    with d1 mem c(2) show ?thesis
      by (intro exI[of _ c]) (simp add: m1 b1)
  qed
  then obtain c where dm1: "distinct (map fst m1)" and mem: "(?key, c) \<in> set m1"
    and body: "(data c)\<lparr>cached := True\<rparr> = b1\<lparr>cached := True\<rparr>"
    and keep: "now_clean e2 - timestamp c \<le> CACHE_TTL \<Longrightarrow> (?key, c) \<in> set ?c2"
    by blast
  have get1: "mapGet m1 ?key = Some c"
    using dm1 mem by (rule mapGet_distinct)
  have res: "results (data c) = results b1"
    using arg_cong[OF body, of results] by simp
  have dc2: "distinct (map fst ?c2)"
    using dm1 by (simp add: cleanCache_def sweep_distinct)
  have second: "fst (api_search e2 req m1) = Response 200 (Body (b1\<lparr>cached := True\<rparr>))
                \<and> (CACHE_TTL \<le> now_check e3 - timestamp c \<longrightarrow>
                     (\<exists>b3. fst (api_search e3 req (snd (api_search e2 req m1))) = Response 200 (Body b3)
                           \<and> \<not> cached b3))"
    if within: "now_check e2 - timestamp c < CACHE_TTL"
  proof -
    have "now_clean e2 - timestamp c \<le> CACHE_TTL" using mono within by simp
    from keep[OF this] dc2 have get2: "mapGet ?c2 ?key = Some c"
      by (intro mapGet_distinct)
    then have "cacheHit (now_check e2) ?c2 ?key = Some (b1\<lparr>cached := True\<rparr>)"
      using within body by (simp add: cacheHit_def)
    with api_search_cases[OF valid, of e2 m1]
    have s: "api_search e2 req m1 = (Response 200 (Body (b1\<lparr>cached := True\<rparr>)), ?c2)"
      by auto
    have "\<exists>b3. fst (api_search e3 req ?c2) = Response 200 (Body b3) \<and> \<not> cached b3"
      if "CACHE_TTL \<le> now_check e3 - timestamp c"
      using valid dc2 get2 that by (rule api_search_fresh_when_late)
    with s show ?thesis by simp
  qed
  have late2: "\<exists>b2. fst (api_search e2 req m1) = Response 200 (Body b2) \<and> \<not> cached b2"
    if "CACHE_TTL \<le> now_check e2 - timestamp c"
    using valid dm1 get1 that by (rule api_search_fresh_when_late)
  from get1 res second late2 show ?thesis by blast
qed

lemma ibm_first:
  "api_search (offlineEnv 1000) (searchRequest ''ibm'' (Some 3)) []
     = (Response 200 (Body ibmBody), [(''ibm_3'', \<lparr>data = ibmBody, timestamp = 1000\<rparr>)])"
  unfolding ibmBody_def by code_simp

lemma ibm_key: "searchKey (searchRequest ''ibm'' (Some 3)) = ''ibm_3''"
  by code_simp

theorem C7_cache_idempotence_witness:
  "api_search (offlineEnv 1000) (searchRequest ''ibm'' (Some 3)) []
     = (Response 200 (Body ibmBody), [(''ibm_3'', \<lparr>data = ibmBody, timestamp = 1000\<rparr>)])
   \<and> fst (api_search (offlineEnv 2000) (searchRequest ''ibm'' (Some 3))
             [(''ibm_3'', \<lparr>data = ibmBody, timestamp = 1000\<rparr>)])
       = Response 200 (Body (ibmBody\<lparr>cached := True\<rparr>))
   \<and> (\<exists>b3. fst (api_search (offlineEnv 400000) (searchRequest ''ibm'' (Some 3))
                   (snd (api_search (offlineEnv 2000) (searchRequest ''ibm'' (Some 3))
                           [(''ibm_3'', \<lparr>data = ibmBody, timestamp = 1000\<rparr>)])))
             = Response 200 (Body b3) \<and> \<not> cached b3)"
proof -
  let ?req = "searchRequest ''ibm'' (Some 3)"
  let ?m1 = "[(''ibm_3'', \<lparr>data = ibmBody, timestamp = 1000\<rparr>)]"
  have valid: "orElse (q_query ?req) [] \<noteq> []"
    by (simp add: searchRequest_def orElse_def)
  have past: "\<forall>(k, c) \<in> set ([] :: cache). timestamp c \<le> now_store (offlineEnv 1000)"
    by simp
  have mono: "now_clean (offlineEnv 2000) \<le> now_check (offlineEnv 2000)"
    by (simp add: offlineEnv_def)
  from C7_cache_idempotence [OF valid _ past ibm_first mono, of "offlineEnv 400000"]
  obtain c where c: "mapGet ?m1 (searchKey ?req) = Some c"
    and second: "now_check (offlineEnv 2000) - timestamp c < CACHE_TTL \<longrightarrow>
                fst (api_search (offlineEnv 2000) ?req ?m1) = Response 200 (Body (ibmBody\<lparr>cached := True\<rparr>))
                \<and> (CACHE_TTL \<le> now_check (offlineEnv 400000) - timestamp c \<longrightarrow>
                     (\<exists>b3. fst (api_search (offlineEnv 400000) ?req (snd (api_search (offlineEnv 2000) ?req ?m1)))
                             = Response 200 (Body b3) \<and> \<not> cached b3))"
    by auto
  from c have ts: "timestamp c = 1000"
    by (auto simp: ibm_key mapGet_def)
  from second ts ibm_first show ?thesis
    by (simp add: offlineEnv_def CACHE_TTL_def)
qed

lemma trim_blank: "\<forall>c \<in> set raw. isSpace c \<Longrightarrow> trim raw = []"
  by (auto simp: trim_def dest: set_dropWhileD)

lemma knowledgeBase_match_empty:
  "find (\<lambda>(topic, rs). includesStr [] topic \<or> includesStr topic []) knowledgeBase = Some (hd knowledgeBase)"
  by (simp add: knowledgeBase_def)

lemma knowledgeBase_first: "fst (hd knowledgeBase) = ''openai''"
  by (simp add: knowledgeBase_def)

lemma slice_take: "slice 0 (Some (int n)) xs = take n xs"
  by (simp add: slice_def sliceIndex_def Let_def min_def)

lemma kb_empty_query:
  "getKnowledgeBaseResults env [] n =
     \<lparr>query = [], results = take n (snd (hd knowledgeBase)), source = ''Enhanced Knowledge Base'',
      totalResults = int (length (snd (hd knowledgeBase))), isoTimestamp = now_iso env, cached = False,
      noteText = None\<rparr>"
  unfolding getKnowledgeBaseResults_def Let_def toLowerCase_def list.map knowledgeBase_match_empty
  by (simp add: slice_take split: prod.splits)

text \<open>
  Claim C10: a query of white space only, without Google credentials and with the
  Wikipedia lookup failing, passes validation, is trimmed to the empty string and matches
  the first topic of the knowledge base, \<open>openai\<close>: the endpoint answers with status 200,
  the results of that topic and the source \<open>Enhanced Knowledge Base\<close>. The cache holds
  nothing else under the key of the request than what this path stores there.
\<close>

theorem C10_blank_query_knowledge_base:
  assumes blank: "raw \<noteq> []" "\<forall>c \<in> set raw. isSpace c"
    and query: "q_query req = Some raw"
    and nocred: "q_googleSearchKey req = None" "q_searchEngineId req = None"
    and wiki: "wikipedia_reply env = None"
    and stored: "\<forall>(k, c) \<in> set m. k = searchKey req \<longrightarrow>
                   results (data c) = take (clampNumResults (q_num_results req)) (snd (hd knowledgeBase))
                   \<and> source (data c) = ''Enhanced Knowledge Base''"
  shows "fst (hd knowledgeBase) = ''openai''
         \<and> (\<exists>b. fst (api_search env req m) = Response 200 (Body b)
                \<and> results b = take (clampNumResults (q_num_results req)) (snd (hd knowledgeBase))
                \<and> source b = ''Enhanced Knowledge Base'')"
proof -
  let ?n = "clampNumResults (q_num_results req)"
  let ?c1 = "cleanCache (now_clean env) m"
  have valid: "orElse (q_query req) [] \<noteq> []"
    using blank(1) query by (simp add: orElse_def)
  have q: "substring0 MAX_QUERY_LENGTH (trim (orElse (q_query req) [])) = []"
    using blank query by (simp add: orElse_def trim_blank substring0_def)
  have fb: "performFallbackSearch env [] ?n = getKnowledgeBaseResults env [] ?n"
    using wiki by (simp add: performFallbackSearch_def tryWikipediaSearch_def)
  show ?thesis
  proof (cases "cacheHit (now_check env) ?c1 (searchKey req)")
    case None
    then have "api_search env req m =
        (Response 200 (Body (getKnowledgeBaseResults env [] ?n)),
         mapSet (searchKey req) \<lparr>data = getKnowledgeBaseResults env [] ?n, timestamp = now_store env\<rparr> ?c1)"
      using valid nocred q fb
      by (simp add: api_search_def Let_def searchKey_def orElse_def)
    then show ?thesis
      by (simp add: kb_empty_query knowledgeBase_first)
  next
    case (Some b)
    then obtain c where c: "mapGet ?c1 (searchKey req) = Some c" "b = (data c)\<lparr>cached := True\<rparr>"
      by (auto simp: cacheHit_def split: option.splits if_splits)
    from c(1) have "(searchKey req, c) \<in> set ?c1" by (rule mapGet_mem)
    then have "(searchKey req, c) \<in> set m"
      using sweep_subset unfolding cleanCache_def by blast
    with stored have "results (data c) = take ?n (snd (hd knowledgeBase))"
      "source (data c) = ''Enhanced Knowledge Base''" by auto
    moreover have "api_search env req m = (Response 200 (Body b), ?c1)"
      using Some valid q by (simp add: api_search_def Let_def searchKey_def)
    ultimately show ?thesis
      using c(2) by (simp add: knowledgeBase_first)
  qed
qed

theorem C10_blank_query_knowledge_base_witness:
  "fst (hd knowledgeBase) = ''openai''
   \<and> (\<exists>b. fst (api_search (offlineEnv 1000) (searchRequest ''   '' None) []) = Response 200 (Body b)
          \<and> results b = take 5 (snd (hd knowledgeBase))
          \<and> source b = ''Enhanced Knowledge Base'')"
proof -
  have blank: "''   '' \<noteq> []" "\<forall>c \<in> set ''   ''. isSpace c"
    by (simp_all add: isSpace_def)
  have n: "clampNumResults None = 5"
    by (simp add: clampNumResults_def MAX_RESULTS_def)
  from C10_blank_query_knowledge_base [OF blank, of "searchRequest ''   '' None" "offlineEnv 1000" "[]"]
  show ?thesis
    by (simp add: searchRequest_def offlineEnv_def n)
qed

lemma google_results_capped:
  "performGoogleSearch env k e q n = Inr g \<Longrightarrow>
     \<forall>r \<in> set (results g). length (title r) \<le> 150 \<and> length (snippet r) \<le> 300"
  by (auto simp: performGoogleSearch_def Let_def slice_take substring0_def
           split: if_splits option.splits dest!: in_set_takeD)

lemma knowledgeBase_capped:
  "\<forall>(topic, rs) \<in> set knowledgeBase. \<forall>r \<in> set rs. length (title r) \<le> 150 \<and> length (snippet r) \<le> 300"
  by (simp add: knowledgeBase_def)

text \<open>
  Claim C2 at a failing input: for a query of 200 letters \<open>z\<close>, without credentials and
  with Wikipedia unreachable, \<open>POST /api/search\<close> answers with the contextual results,
  whose first title has 225 characters and whose first snippet has 309.
\<close>

theorem C2_contextual_results_uncapped:
  "case fst (api_search (offlineEnv 1000) (searchRequest (replicate 200 CHR ''z'') None) []) of
     Response s (Body r) \<Rightarrow>
       s = 200 \<and> source r = ''Contextual Search Results''
       \<and> length (title (hd (results r))) = 225 \<and> length (snippet (hd (results r))) = 309
   | _ \<Rightarrow> False"
  by code_simp

section \<open>Properties of the agent loop\<close>

lemma handleToolCall_entry:
  "handleToolCall run tc = Inr m \<Longrightarrow> role m = ''tool'' \<and> tool_call_id m = Some (tc_id tc)"
  by (auto simp: handleToolCall_def Let_def JSON_parse_def split: arg_text.splits sum.splits if_splits)

lemma handleToolCall_parsed:
  "tc_arguments tc = Stringified j \<Longrightarrow> \<exists>m. handleToolCall run tc = Inr m"
  by (auto simp: handleToolCall_def Let_def JSON_parse_def split: sum.splits)

lemma handleToolCall_malformed:
  "tc_arguments tc = Malformed s \<Longrightarrow> handleToolCall run tc = Inl SyntaxError"
  by (simp add: handleToolCall_def Let_def JSON_parse_def)

lemma promiseAll_entries:
  "promiseAll (map (handleToolCall run) tcs) = Inr ms \<Longrightarrow>
     map tool_call_id ms = map (\<lambda>tc. Some (tc_id tc)) tcs \<and> (\<forall>m \<in> set ms. role m = ''tool'')"
proof (induction tcs arbitrary: ms)
  case Nil
  then show ?case by simp
next
  case (Cons tc tcs)
  from Cons.prems obtain m ms' where
    m: "handleToolCall run tc = Inr m" and ms': "promiseAll (map (handleToolCall run) tcs) = Inr ms'"
    and ms: "ms = m # ms'"
    by (cases "handleToolCall run tc"; cases "promiseAll (map (handleToolCall run) tcs)") auto
  from Cons.IH[OF ms'] handleToolCall_entry[OF m] ms show ?case by simp
qed

lemma promiseAll_parsed:
  "\<forall>tc \<in> set tcs. \<exists>j. tc_arguments tc = Stringified j \<Longrightarrow>
     \<exists>ms. promiseAll (map (handleToolCall run) tcs) = Inr ms"
proof (induction tcs)
  case Nil
  then show ?case by simp
next
  case (Cons tc tcs)
  then obtain j where "tc_arguments tc = Stringified j" by auto
  from handleToolCall_parsed[OF this] obtain m where "handleToolCall run tc = Inr m" by blast
  moreover from Cons obtain ms where "promiseAll (map (handleToolCall run) tcs) = Inr ms" by auto
  ultimately show ?case by simp
qed

text \<open>What one round of the loop appends for a batch whose arguments all parse.\<close>

lemma agentLoop_batch:
  assumes "r_tool_calls response = Some tcs" and "tcs \<noteq> []"
    and "\<forall>tc \<in> set tcs. \<exists>j. tc_arguments tc = Stringified j"
  shows "\<exists>toolResults.
           agentLoop run (LLMReturns response # rs) conversation
             = agentLoop run rs
                 (conversation
                  @ [\<lparr>role = ''assistant'', content = r_content response,
                       tool_calls = Some tcs, tool_call_id = None\<rparr>]
                  @ toolResults)
           \<and> length toolResults = length tcs
           \<and> map tool_call_id toolResults = map (\<lambda>tc. Some (tc_id tc)) tcs
           \<and> (\<forall>m \<in> set toolResults. role m = ''tool'')"
proof -
  from promiseAll_parsed[OF assms(3)] obtain ms where
    ms: "promiseAll (map (handleToolCall run) tcs) = Inr ms" by blast
  from promiseAll_entries[OF ms] have ids: "map tool_call_id ms = map (\<lambda>tc. Some (tc_id tc)) tcs"
    and roles: "\<forall>m \<in> set ms. role m = ''tool''" by simp_all
  from ids have len: "length ms = length tcs" by (metis length_map)
  obtain tc tcs' where tcs: "tcs = tc # tcs'" using assms(2) by (cases tcs) auto
  have "agentLoop run (LLMReturns response # rs) conversation
          = agentLoop run rs
              (conversation
               @ [\<lparr>role = ''assistant'', content = r_content response,
                    tool_calls = Some tcs, tool_call_id = None\<rparr>]
               @ ms)"
    using assms(1) ms unfolding tcs by simp
  with len ids roles show ?thesis by blast
qed

text \<open>
  Claim C5 at a failing input: a response whose one tool call, with id \<open>call_1\<close>, has
  arguments that are no JSON text. \<open>JSON.parse\<close> throws before the \<open>try\<close> block of
  \<open>handleToolCall\<close>, \<open>Promise.all\<close> rejects, and the loop ends the turn with the
  conversation as it was: neither the assistant entry nor a tool entry is appended.
\<close>

theorem C5_malformed_arguments_abort_turn:
  "agentLoop run
     (LLMReturns \<lparr>r_content = Some ''Searching.'',
                  r_tool_calls = Some [\<lparr>tc_id = ''call_1'', tc_type = ''function'', tc_name = ''google_search'',
                                         tc_arguments = Malformed ''{query: ibm''\<rparr>]\<rparr> # rs)
     conversation
   = Some conversation"
  by (simp add: handleToolCall_def JSON_parse_def)

section \<open>Properties of the endpoints and the mock responders\<close>

text \<open>
  Claim C1 at a failing input: a request with provider, model and one message whose
  content is no string (\<open>null\<close>, or an array of content parts), and an empty key.
  \<open>getMockResponse\<close> throws on \<open>lastMessage.content.toLowerCase()\<close>, in the \<open>try\<close>
  block and again in the outer \<open>catch\<close>, so the handler is rejected and the request gets
  no 200 response.
\<close>

theorem C1_non_string_content_rejected:
  "api_llm env
     \<lparr>l_provider = Some ''openai'', l_model = Some ''gpt-4o'',
      l_messages = Some [\<lparr>role = ''user'', content = None, tool_calls = None, tool_call_id = None\<rparr>],
      l_apiKey = Some ''''\<rparr>
   = HandlerRejected"
  by (simp add: api_llm_def api_llm_try_def getMockResponse_def orElse_def demoKey_def
        limitConversation_def truncateMessage_def Let_def)

lemma api_llm_live_failure_rejected:
  "api_llm \<lparr>llm_now = now, live_reply = None\<rparr>
     \<lparr>l_provider = Some ''openai'', l_model = Some ''gpt-4o'',
      l_messages = Some [\<lparr>role = ''user'', content = None, tool_calls = None, tool_call_id = None\<rparr>],
      l_apiKey = Some ''sk-0123456789012345678901234567890123456789''\<rparr>
   = HandlerRejected"
  by (simp add: api_llm_def api_llm_try_def getMockResponse_def orElse_def demoKey_def trim_def isSpace_def
        limitConversation_def truncateMessage_def Let_def callOpenAI_def vendorCall_def)

lemma getMockResponse_answers:
  assumes "ms = [] \<or> content (last ms) \<noteq> None"
  shows "\<exists>m. getMockResponse now p mo (Some ms) = Inr (Choices [m])
             \<and> role m = ''assistant'' \<and> (\<exists>c. content m = Some c \<and> c \<noteq> [])"
  using assms
  by (auto simp: getMockResponse_def Let_def substring0_def split: option.splits)

lemma limitConversation_last: "ms \<noteq> [] \<Longrightarrow> last (limitConversation ms) = last ms"
  by (auto simp: limitConversation_def slice_neg)

lemma limitConversation_Nil: "limitConversation ms = [] \<longleftrightarrow> ms = []"
  by (auto simp: limitConversation_def slice_neg)

lemma truncated_last:
  assumes "ms = [] \<or> content (last ms) \<noteq> None"
  shows "map truncateMessage (limitConversation ms) = []
         \<or> content (last (map truncateMessage (limitConversation ms))) \<noteq> None"
proof (cases "ms = []")
  case True
  then show ?thesis by (simp add: limitConversation_def)
next
  case False
  then have ne: "limitConversation ms \<noteq> []" by (simp add: limitConversation_Nil)
  from False assms have "content (last ms) \<noteq> None" by simp
  then show ?thesis
    using ne by (simp add: last_map limitConversation_last[OF False] truncateMessage_def)
qed

text \<open>With a last message whose content is a string, demo mode and a failed live call answer 200 with the mock body.\<close>

lemma api_llm_degrades:
  assumes valid: "orElse (l_provider req) [] \<noteq> []" "orElse (l_model req) [] \<noteq> []" "l_messages req = Some ms"
    and str: "ms = [] \<or> content (last ms) \<noteq> None"
    and fails: "demoKey (l_apiKey req) \<or> live_reply env = None"
    and provider: "orElse (l_provider req) [] \<in> {''openai'', ''anthropic'', ''google'', ''aipipe''}"
  shows "\<exists>b. api_llm env req = Response 200 (Body b) \<and> carriesAnswer b"
proof -
  let ?ms = "map truncateMessage (limitConversation ms)"
  from getMockResponse_answers[OF truncated_last[OF str], of "llm_now env" "l_provider req" "l_model req"]
  obtain m where m: "getMockResponse (llm_now env) (l_provider req) (l_model req) (Some ?ms) = Inr (Choices [m])"
    and c: "\<exists>c. content m = Some c \<and> c \<noteq> []" by blast
  have carries: "carriesAnswer (Choices [m])" using c by (auto simp: carriesAnswer_def)
  have "api_llm_try env req = Inr (Response 200 (Body (Choices [m])))"
    using valid m fails provider
    by (auto simp: api_llm_try_def Let_def callOpenAI_def callAnthropic_def callGemini_def callAIPipe_def
          vendorCall_def)
  then show ?thesis using carries by (simp add: api_llm_def)
qed

text \<open>
  Claim C8, as stated: a request without \<open>code\<close> is answered with status 400, which is
  not 2xx.
\<close>

theorem C8_missing_code_counterexample:
  "\<not> is2xx (api_execute exampleVm ''2025-01-01T00:00:00.000Z'' None)"
  by (simp add: api_execute_def is2xx_def orElse_def)

text \<open>
  Claim C8, amended: a request whose code is missing, empty or no string is answered with
  status 400 and the error \<open>Code is required\<close>; a request with code whose execution
  returns, or throws an error that carries a message, is answered with status 200 and a
  body whose \<open>success\<close> tells which: a success carries the returned value in \<open>result\<close>,
  the first 50 log lines, the error lines and no \<open>error\<close>; a failure carries the message
  of the error in \<open>error\<close> (cut to 1000 characters) and in \<open>errors\<close>, no result and no
  log lines.
\<close>

theorem C8_execute_status:
  "(orElse code [] = [] \<longrightarrow> api_execute vm isoNow code = Response 400 (ErrorBody ''Code is required''))
   \<and> (orElse code [] \<noteq> [] \<longrightarrow> outcome (vm (substring0 10000 (the code))) \<noteq> VmThrows None \<longrightarrow>
        (\<exists>b. api_execute vm isoNow code = Response 200 (Body b)
             \<and> (success b \<longleftrightarrow> (\<exists>v. outcome (vm (substring0 10000 (the code))) = VmReturns v))
             \<and> (success b \<longrightarrow>
                   (\<exists>v. outcome (vm (substring0 10000 (the code))) = VmReturns v
                        \<and> result b = Some v \<and> error b = None
                        \<and> logs b = take 50 (vm_logs (vm (substring0 10000 (the code))))
                        \<and> errors b = vm_errors (vm (substring0 10000 (the code)))))
             \<and> (\<not> success b \<longrightarrow>
                   (\<exists>msg. outcome (vm (substring0 10000 (the code))) = VmThrows (Some msg)
                          \<and> error b = Some (substring0 1000 msg) \<and> errors b = [msg]
                          \<and> result b = None \<and> logs b = []))))"
proof -
  have code1: "(if length (the code) > 10000 then substring0 10000 (the code) else the code)
                 = substring0 10000 (the code)"
    by (simp add: substring0_def)
  have sl: "\<And>xs :: string list. slice 0 (Some 50) xs = take 50 xs"
    by (simp add: slice_def sliceIndex_def Let_def min_def)
  show ?thesis
    unfolding api_execute_def Let_def code1 sl
    by (auto split: vm_outcome.splits option.splits)
qed

theorem C8_execute_status_witness:
  "orElse (Some ''while (true) {}'') [] \<noteq> []
   \<and> outcome (exampleVm (substring0 10000 (the (Some ''while (true) {}'')))) \<noteq> VmThrows None
   \<and> (\<exists>b. api_execute exampleVm ''2025-01-01T00:00:00.000Z'' (Some ''while (true) {}'') = Response 200 (Body b)
          \<and> \<not> success b \<and> error b = Some ''Script execution timed out.'' \<and> result b = None)
   \<and> (\<exists>b. api_execute exampleVm ''2025-01-01T00:00:00.000Z'' (Some ''return 1+1'') = Response 200 (Body b)
          \<and> success b \<and> result b = Some (JNum 2) \<and> error b = None)"
proof -
  have h1: "orElse (Some ''while (true) {}'') [] \<noteq> []" "orElse (Some ''return 1+1'') [] \<noteq> []"
    by (simp_all add: orElse_def)
  have h2: "outcome (exampleVm (substring0 10000 (the (Some ''while (true) {}'')))) = VmThrows (Some ''Script execution timed out.'')"
    by (simp add: exampleVm_def substring0_def)
  have h3: "outcome (exampleVm (substring0 10000 (the (Some ''return 1+1'')))) = VmReturns (JNum 2)"
    by (simp add: exampleVm_def substring0_def)
  from C8_execute_status [of "Some ''while (true) {}''" exampleVm "''2025-01-01T00:00:00.000Z''"] h1 h2
  have a: "\<exists>b. api_execute exampleVm ''2025-01-01T00:00:00.000Z'' (Some ''while (true) {}'') = Response 200 (Body b)
          \<and> \<not> success b \<and> error b = Some ''Script execution timed out.'' \<and> result b = None"
    by (auto simp: substring0_def)
  from C8_execute_status [of "Some ''return 1+1''" exampleVm "''2025-01-01T00:00:00.000Z''"] h1 h3
  have b: "\<exists>b. api_execute exampleVm ''2025-01-01T00:00:00.000Z'' (Some ''return 1+1'') = Response 200 (Body b)
          \<and> success b \<and> result b = Some (JNum 2) \<and> error b = None"
    by auto
  from h1 h2 a b show ?thesis by simp
qed












end
